theory Spec2Isabelle
  imports Complex_Main
begin

section \<open>Power Net Analyzer: host objects\<close>

text \<open>
  The plugin (\<^verbatim>\<open>src/power_analyzer.py\<close>) reads a board through the host's Python
  API. The host objects are modelled by the observations the plugin makes on them:
  a pad by its net name (\<^verbatim>\<open>pad.GetNet().GetNetname()\<close>), its number
  (\<^verbatim>\<open>pad.GetPadName()\<close>), the reference of its footprint
  (\<^verbatim>\<open>pad.GetParent().GetReference()\<close>) and its hit test; a track by its hit test;
  a net by its net code (\<^verbatim>\<open>net.GetNet()\<close>); the board by its name-to-net map in
  iteration order, its pads, its tracks per net code and its bounding box.
  Coordinates are Python integers (nanometres).
\<close>

type_synonym point = "int \<times> int"

record net =
  GetNet :: int

record pad =
  GetNetname :: string
  GetPadName :: string
  GetReference :: string
  HitTest :: "point \<Rightarrow> bool"

record track =
  TrackHitTest :: "point \<Rightarrow> bool"

record bounding_box =
  GetX :: int
  GetY :: int
  GetWidth :: int
  GetHeight :: int

record board =
  GetNetsByName :: "(string \<times> net) list"
  GetPads :: "pad list"
  TracksInNet :: "int \<Rightarrow> track list"
  GetBoardEdgesBoundingBox :: bounding_box

text \<open>
  Exceptions that can leave a handler: Python's own, the toolkit's complaint about a
  row that the data view does not have, and a failure of the external solver.
\<close>

datatype error = AttributeError | IndexError | KeyError | InvalidRow | SolverError

section \<open>The pad configuration list\<close>

text \<open>
  The data view has three columns: pad name (0), current draw (1, editable text) and
  source (2, a toggle). A row index outside the list is an error of the toolkit.
\<close>

record cfg_row =
  pad_name :: string
  current_draw :: string
  source :: bool

definition GetTextValue :: "cfg_row list \<Rightarrow> int \<Rightarrow> nat \<Rightarrow> error + string" where
  "GetTextValue cfg r c =
     (if 0 \<le> r \<and> r < int (length cfg)
      then Inr (if c = 0 then pad_name (cfg ! nat r) else current_draw (cfg ! nat r))
      else Inl InvalidRow)"

definition GetToggleValue :: "cfg_row list \<Rightarrow> int \<Rightarrow> nat \<Rightarrow> error + bool" where
  "GetToggleValue cfg r c =
     (if 0 \<le> r \<and> r < int (length cfg) then Inr (source (cfg ! nat r)) else Inl InvalidRow)"

definition SetToggleValue :: "bool \<Rightarrow> int \<Rightarrow> nat \<Rightarrow> cfg_row list \<Rightarrow> error + cfg_row list" where
  "SetToggleValue v r c cfg =
     (if 0 \<le> r \<and> r < int (length cfg)
      then Inr (cfg[nat r := (cfg ! nat r)\<lparr>source := v\<rparr>])
      else Inl InvalidRow)"

section \<open>Python helpers\<close>

text \<open>\<^verbatim>\<open>xs[i]\<close>: a negative index counts from the end, an index out of range raises.\<close>

definition py_index :: "'a list \<Rightarrow> int \<Rightarrow> error + 'a" where
  "py_index xs i =
     (let n = int (length xs); k = (if i < 0 then i + n else i)
      in if 0 \<le> k \<and> k < n then Inr (xs ! nat k) else Inl IndexError)"

text \<open>\<^verbatim>\<open>"{}".format(n)\<close> for a Python integer that is not negative: its decimal digits.\<close>

fun str_nat :: "nat \<Rightarrow> string" where
  "str_nat n =
     (if n < 10 then [''0123456789'' ! n]
      else str_nat (n div 10) @ [''0123456789'' ! (n mod 10)])"

declare str_nat.simps [simp del]

text \<open>
  \<^verbatim>\<open>range(start, stop, 100000)\<close>, the only range with a step in the program
  (\<^verbatim>\<open>analysis_grid_spacing\<close>).
\<close>

definition analysis_grid_spacing :: int where
  "analysis_grid_spacing = 100000"

function grid_range :: "int \<Rightarrow> int \<Rightarrow> int list" where
  "grid_range start stop =
     (if start < stop then start # grid_range (start + analysis_grid_spacing) stop else [])"
  by pat_completeness auto
termination
  by (relation "measure (\<lambda>(start, stop). nat (stop - start))")
     (auto simp: analysis_grid_spacing_def)

declare grid_range.simps [simp del]

text \<open>
  \<^verbatim>\<open>str.lower()\<close> on the ASCII range: the letters A to Z move to a to z, every other
  byte stays.
\<close>

definition lower_char :: "char \<Rightarrow> char" where
  "lower_char c =
     (case map_of (zip ''ABCDEFGHIJKLMNOPQRSTUVWXYZ'' ''abcdefghijklmnopqrstuvwxyz'') c of
        Some d \<Rightarrow> d
      | None \<Rightarrow> c)"

definition lower :: "string \<Rightarrow> string" where
  "lower s = map lower_char s"

text \<open>
  A \<^verbatim>\<open>for\<close> loop that appends one value per iteration to a fresh list while a counter
  runs beside it (\<^verbatim>\<open>i = 0 ... i += 1\<close>); the first exception of the body ends it.
\<close>

fun for_enum :: "(nat \<Rightarrow> 'a \<Rightarrow> error + 'b) \<Rightarrow> nat \<Rightarrow> 'a list \<Rightarrow> error + 'b list" where
  "for_enum body k [] = Inr []"
| "for_enum body k (x # xs) =
     (case body k x of
        Inl e \<Rightarrow> Inl e
      | Inr v \<Rightarrow> (case for_enum body (Suc k) xs of Inl e \<Rightarrow> Inl e | Inr vs \<Rightarrow> Inr (v # vs)))"

section \<open>Creating the nodes\<close>

text \<open>
  The hit tests are calls into the host. Their order is kept as a list of probes: which
  pad (by its index in \<^verbatim>\<open>analysis_pads\<close>) or which track (by its position in the
  list of tracks) was tested, in the order of the calls.
\<close>

datatype probe = PadProbe nat | TrackProbe nat

record node_class =
  node_name :: string
  node_on_net :: bool
  probes :: "probe list"

text \<open>
  \<^verbatim>\<open>if GetTextValue(index, 1) != "0" or GetToggleValue(index, 2): node_name =
  GetTextValue(index, 0)\<close>, with the short circuit of \<^verbatim>\<open>or\<close>.
\<close>

definition pad_node_name :: "cfg_row list \<Rightarrow> nat \<Rightarrow> string \<Rightarrow> error + string" where
  "pad_node_name cfg index nm =
     (case GetTextValue cfg (int index) 1 of
        Inl e \<Rightarrow> Inl e
      | Inr cur \<Rightarrow>
          (case (if cur \<noteq> ''0'' then Inr True else GetToggleValue cfg (int index) 2) of
             Inl e \<Rightarrow> Inl e
           | Inr named \<Rightarrow> if named then GetTextValue cfg (int index) 0 else Inr nm))"

text \<open>The loop over the pads: it stops at the first pad that hits (\<^verbatim>\<open>break\<close>).\<close>

fun check_pads ::
  "cfg_row list \<Rightarrow> point \<Rightarrow> string \<Rightarrow> nat \<Rightarrow> pad list \<Rightarrow> error + node_class" where
  "check_pads cfg pt nm index [] = Inr \<lparr>node_name = nm, node_on_net = False, probes = []\<rparr>"
| "check_pads cfg pt nm index (p # rest) =
     (if HitTest p pt then
        (case pad_node_name cfg index nm of
           Inl e \<Rightarrow> Inl e
         | Inr nm' \<Rightarrow> Inr \<lparr>node_name = nm', node_on_net = True, probes = [PadProbe index]\<rparr>)
      else
        (case check_pads cfg pt nm (Suc index) rest of
           Inl e \<Rightarrow> Inl e
         | Inr c \<Rightarrow> Inr (c\<lparr>probes := PadProbe index # probes c\<rparr>)))"

text \<open>The loop over the tracks, which also stops at the first hit.\<close>

fun check_tracks :: "point \<Rightarrow> nat \<Rightarrow> track list \<Rightarrow> bool \<times> probe list" where
  "check_tracks pt k [] = (False, [])"
| "check_tracks pt k (t # rest) =
     (if TrackHitTest t pt then (True, [TrackProbe k])
      else (case check_tracks pt (Suc k) rest of (hit, ps) \<Rightarrow> (hit, TrackProbe k # ps)))"

text \<open>
  The body of the inner loop for the point \<open>pt\<close> at grid index \<open>(i, j)\<close>.
  \<^verbatim>\<open>self.analysis_pads\<close> exists only after a net with pads was selected; reading it
  before raises. The counter \<^verbatim>\<open>nodes_to_process\<close> is only printed and is left out.
\<close>

definition test_node ::
  "cfg_row list \<Rightarrow> pad list option \<Rightarrow> track list \<Rightarrow> point \<Rightarrow> nat \<Rightarrow> nat \<Rightarrow> error + node_class" where
  "test_node cfg analysis_pads analysis_tracks pt i j =
     (case analysis_pads of
        None \<Rightarrow> Inl AttributeError
      | Some pads \<Rightarrow>
          (case check_pads cfg pt (''n'' @ str_nat i @ ''x'' @ str_nat j) 0 pads of
             Inl e \<Rightarrow> Inl e
           | Inr c \<Rightarrow>
               if \<not> node_on_net c then
                 (case check_tracks pt 0 analysis_tracks of
                    (hit, ps) \<Rightarrow> Inr (c\<lparr>node_on_net := hit, probes := probes c @ ps\<rparr>))
               else Inr c))"

text \<open>What is appended to the line: the node name if the node is on the net, else \<^verbatim>\<open>""\<close>.\<close>

definition node_entry :: "node_class \<Rightarrow> string" where
  "node_entry c = (if node_on_net c then node_name c else '''')"

definition create_line ::
  "cfg_row list \<Rightarrow> pad list option \<Rightarrow> track list \<Rightarrow> int list \<Rightarrow> nat \<Rightarrow> int \<Rightarrow> error + string list" where
  "create_line cfg analysis_pads analysis_tracks ys i x =
     for_enum (\<lambda>j y. case test_node cfg analysis_pads analysis_tracks (x, y) i j of
                       Inl e \<Rightarrow> Inl e | Inr c \<Rightarrow> Inr (node_entry c)) 0 ys"

definition create_nodes ::
  "cfg_row list \<Rightarrow> pad list option \<Rightarrow> track list \<Rightarrow> bounding_box \<Rightarrow> error + string list list" where
  "create_nodes cfg analysis_pads analysis_tracks bounding_box =
     (let root_x = GetX bounding_box; root_y = GetY bounding_box;
          width = GetWidth bounding_box; height = GetHeight bounding_box
      in for_enum (create_line cfg analysis_pads analysis_tracks (grid_range root_y (root_y + height)))
           0 (grid_range root_x (root_x + width)))"

section \<open>Creating the SPICE simulation\<close>

text \<open>
  \<^verbatim>\<open>"{}".format\<close> of the two float attributes: Python prints the float literals
  \<^verbatim>\<open>0.0005\<close> and \<^verbatim>\<open>3.3\<close> as these digits. No arithmetic is done on either.
\<close>

definition analysis_sheet_resistance :: string where
  "analysis_sheet_resistance = ''0.0005''"

definition analysis_source_voltage :: real where
  "analysis_source_voltage = 3.3"

definition format_source_voltage :: string where
  "format_source_voltage = ''3.3''"

definition resistor_line :: "nat \<Rightarrow> string \<Rightarrow> string \<Rightarrow> string" where
  "resistor_line n a b =
     ''R'' @ str_nat n @ '' '' @ a @ '' '' @ b @ '' '' @ analysis_sheet_resistance"

text \<open>\<^verbatim>\<open>analysis_netlist.append("R{} {} {} {}".format(...)); n += 1\<close> on the pair of the
  netlist and the counter.\<close>

definition add_resistor :: "string \<Rightarrow> string \<Rightarrow> string list \<times> nat \<Rightarrow> string list \<times> nat" where
  "add_resistor a b st = (case st of (netlist, n) \<Rightarrow> (netlist @ [resistor_line n a b], n + 1))"

text \<open>
  The body of the two loops over the grid: right, bottom, left, top, in this order.
  The reads \<open>nodes ! i ! j\<close> stand for \<^verbatim>\<open>analysis_nodes[i][j]\<close>; on a grid whose
  rows all have the length of the first, as \<open>create_nodes\<close> returns it, they are all
  in range.
\<close>

definition connect_node ::
  "string list list \<Rightarrow> nat \<Rightarrow> nat \<Rightarrow> string list \<times> nat \<Rightarrow> string list \<times> nat" where
  "connect_node nodes i j st =
     (if nodes ! i ! j \<noteq> '''' then
        (let st1 = (if nodes ! (i + 1) ! j \<noteq> ''''
                    then add_resistor (nodes ! i ! j) (nodes ! (i + 1) ! j) st else st);
             st2 = (if nodes ! i ! (j + 1) \<noteq> ''''
                    then add_resistor (nodes ! i ! j) (nodes ! i ! (j + 1)) st1 else st1);
             st3 = (if nodes ! (i - 1) ! j \<noteq> ''''
                    then add_resistor (nodes ! i ! j) (nodes ! (i - 1) ! j) st2 else st2);
             st4 = (if nodes ! i ! (j - 1) \<noteq> ''''
                    then add_resistor (nodes ! i ! j) (nodes ! i ! (j - 1)) st3 else st3)
         in st4)
      else st)"

text \<open>
  \<^verbatim>\<open>for i in range(1, len(analysis_nodes)-1): for j in range(1, len(analysis_nodes[0])-1)\<close>.
  Both ranges are empty when the length is below 3, as \<open>[1..<n - 1]\<close> is.
\<close>

definition connect_nodes :: "string list list \<Rightarrow> string list \<times> nat \<Rightarrow> string list \<times> nat" where
  "connect_nodes nodes st =
     fold (\<lambda>i. fold (\<lambda>j. connect_node nodes i j) [1..<length (nodes ! 0) - 1])
       [1..<length nodes - 1] st"

definition voltage_source_line :: "string \<Rightarrow> string" where
  "voltage_source_line nm = ''V1 '' @ nm @ '' 0 '' @ format_source_voltage"

definition current_source_line :: "nat \<Rightarrow> string \<Rightarrow> string \<Rightarrow> string" where
  "current_source_line i nm cur = ''I'' @ str_nat i @ '' '' @ nm @ '' 0 '' @ cur"

text \<open>The body of the loop over \<^verbatim>\<open>enumerate(self.analysis_padnames)\<close>: the lines it
  appends for pad \<open>i\<close> (one or none).\<close>

definition current_source :: "cfg_row list \<Rightarrow> nat \<Rightarrow> string \<Rightarrow> error + string list" where
  "current_source cfg i p =
     (case GetTextValue cfg (int i) 1 of
        Inl e \<Rightarrow> Inl e
      | Inr cur \<Rightarrow>
          if cur \<noteq> ''0'' then
            (case GetTextValue cfg (int i) 0 of
               Inl e \<Rightarrow> Inl e
             | Inr nm \<Rightarrow> Inr [current_source_line i nm cur])
          else Inr [])"

definition create_netlist ::
  "cfg_row list \<Rightarrow> int \<Rightarrow> string list option \<Rightarrow> string list list \<Rightarrow> error + string list" where
  "create_netlist cfg source_row analysis_padnames nodes =
     (case connect_nodes nodes ([''analysis''], 1) of
        (netlist, n) \<Rightarrow>
          (case GetTextValue cfg source_row 0 of
             Inl e \<Rightarrow> Inl e
           | Inr src \<Rightarrow>
               (case analysis_padnames of
                  None \<Rightarrow> Inl AttributeError
                | Some padnames \<Rightarrow>
                    (case for_enum (current_source cfg) 0 padnames of
                       Inl e \<Rightarrow> Inl e
                     | Inr ls \<Rightarrow>
                         Inr (netlist @ [voltage_source_line src] @ concat ls
                              @ [''.op'', ''.end''])))))"

section \<open>Mapping the solver's result back onto the grid\<close>

text \<open>
  The solver's result is a dictionary of plots, each a dictionary from vector names to
  arrays. \<^verbatim>\<open>data["op1"][name.lower()][0]\<close> raises when a key is missing or the array is
  empty. The solver's values and the source voltage are passed on as they are, with no
  arithmetic on them, so the floats are modelled as real numbers.
\<close>

type_synonym spice_data = "string \<rightharpoonup> (string \<rightharpoonup> real list)"

definition node_voltage :: "spice_data \<Rightarrow> string \<Rightarrow> error + real" where
  "node_voltage data nm =
     (case data ''op1'' of
        None \<Rightarrow> Inl KeyError
      | Some plot \<Rightarrow>
          (case plot (lower nm) of
             None \<Rightarrow> Inl KeyError
           | Some vec \<Rightarrow> py_index vec 0))"

text \<open>
  The body of the inner loop: the value appended for index \<open>(i, j)\<close>. The read
  \<open>nodes ! i ! j\<close> stands for \<^verbatim>\<open>analysis_nodes[i][j]\<close> and is in range on a grid
  whose rows all have the length of the first.
\<close>

definition cell_voltage :: "spice_data \<Rightarrow> string list list \<Rightarrow> nat \<Rightarrow> nat \<Rightarrow> error + real" where
  "cell_voltage data nodes i j =
     (if nodes ! i ! j \<noteq> '''' then node_voltage data (nodes ! i ! j)
      else Inr analysis_source_voltage)"

definition create_voltages :: "spice_data \<Rightarrow> string list list \<Rightarrow> error + real list list" where
  "create_voltages data nodes =
     for_enum (\<lambda>_ i. for_enum (\<lambda>_ j. cell_voltage data nodes i j) 0 [0..<length (nodes ! 0)])
       0 [0..<length nodes]"

section \<open>The window and its event handlers\<close>

text \<open>
  The attributes of \<^verbatim>\<open>PowerNetAnalyzerGui\<close> that the handlers read and write. The four
  \<^verbatim>\<open>analysis_\<close> attributes do not exist until \<^verbatim>\<open>OnSelectNet\<close> assigns them.
\<close>

record gui =
  board :: board
  netnames :: "string list"
  nets :: "net list"
  pad_config :: "cfg_row list"
  source_row :: int
  start_button_enabled :: bool
  analysis_netname :: "string option"
  analysis_net :: "net option"
  analysis_padnames :: "string list option"
  analysis_pads :: "pad list option"

text \<open>The loop of the constructor over \<^verbatim>\<open>board_nets.items()\<close>.\<close>

fun collect_nets ::
  "(string \<times> net) list \<Rightarrow> string list \<times> net list \<Rightarrow> string list \<times> net list" where
  "collect_nets [] acc = acc"
| "collect_nets ((netname, n) # rest) (names, ns) =
     (if netname = '''' then collect_nets rest (names, ns)
      else collect_nets rest (names @ [netname], ns @ [n]))"

definition init :: "board \<Rightarrow> gui" where
  "init b =
     (case collect_nets (GetNetsByName b) ([], []) of
        (names, ns) \<Rightarrow>
          \<lparr>board = b, netnames = names, nets = ns, pad_config = [], source_row = - 1,
           start_button_enabled = False, analysis_netname = None, analysis_net = None,
           analysis_padnames = None, analysis_pads = None\<rparr>)"

text \<open>The loop of \<^verbatim>\<open>OnSelectNet\<close> over the pads, on the three lists it appends to.\<close>

fun select_pads ::
  "string \<Rightarrow> pad list \<Rightarrow> pad list \<times> string list \<times> cfg_row list
     \<Rightarrow> pad list \<times> string list \<times> cfg_row list" where
  "select_pads nm [] acc = acc"
| "select_pads nm (p # rest) (aps, names, cfg) =
     (if GetNetname p = nm then
        (let padname = GetReference p @ ''-Pad'' @ GetPadName p
         in select_pads nm rest
              (aps @ [p], names @ [padname],
               cfg @ [\<lparr>pad_name = padname, current_draw = ''0'', source = False\<rparr>]))
      else select_pads nm rest (aps, names, cfg))"

text \<open>
  A handler returns the window as it leaves it and the exception that ended it, if any:
  what was assigned before the exception stays assigned.
\<close>

definition OnSelectNet :: "gui \<Rightarrow> int \<Rightarrow> gui \<times> error option" where
  "OnSelectNet self selection =
     (case py_index (netnames self) selection of
        Inl e \<Rightarrow> (self, Some e)
      | Inr nm \<Rightarrow>
          (let s1 = self\<lparr>analysis_netname := Some nm\<rparr> in
           case py_index (nets s1) selection of
             Inl e \<Rightarrow> (s1, Some e)
           | Inr n \<Rightarrow>
               (let s2 = s1\<lparr>analysis_net := Some n, pad_config := [], source_row := - 1,
                           start_button_enabled := False\<rparr>;
                    pads = GetPads (board s2)
                in if length pads > 0 then
                     (case select_pads nm pads ([], [], pad_config s2) of
                        (aps, names, cfg) \<Rightarrow>
                          (s2\<lparr>analysis_padnames := Some names, analysis_pads := Some aps,
                              pad_config := cfg\<rparr>, None))
                   else (s2, None))))"

definition OnSelectSource :: "gui \<Rightarrow> nat \<Rightarrow> int \<Rightarrow> gui \<times> error option" where
  "OnSelectSource self column row =
     (if column = 2 then
        (if source_row self = row then
           (self\<lparr>source_row := - 1, start_button_enabled := False\<rparr>, None)
         else if source_row self \<noteq> - 1 then
           (case SetToggleValue False (source_row self) 2 (pad_config self) of
              Inl e \<Rightarrow> (self, Some e)
            | Inr cfg \<Rightarrow>
                (self\<lparr>pad_config := cfg, source_row := row, start_button_enabled := True\<rparr>,
                 None))
         else (self\<lparr>source_row := row, start_button_enabled := True\<rparr>, None))
      else (self, None))"

text \<open>
  \<^verbatim>\<open>run_analysis\<close>, with the external solver (\<^verbatim>\<open>NgSpice().run\<close>) as a parameter.
  It returns what it computed: the grid of node names, the netlist handed to the solver
  and the grid of voltages handed to the plot. The three attributes it assigns (grid
  spacing, sheet resistance, source voltage) are the constants above and are read by
  nothing else, so the window is left as it was.
\<close>

record analysis =
  analysis_nodes :: "string list list"
  analysis_netlist :: "string list"
  node_voltages :: "real list list"

definition run_analysis :: "(string list \<Rightarrow> error + spice_data) \<Rightarrow> gui \<Rightarrow> error + analysis" where
  "run_analysis ng_run self =
     (case analysis_netname self of
        None \<Rightarrow> Inl AttributeError
      | Some _ \<Rightarrow>
          (case analysis_net self of
             None \<Rightarrow> Inl AttributeError
           | Some n \<Rightarrow>
               (case create_nodes (pad_config self) (analysis_pads self)
                       (TracksInNet (board self) (GetNet n))
                       (GetBoardEdgesBoundingBox (board self)) of
                  Inl e \<Rightarrow> Inl e
                | Inr nodes \<Rightarrow>
                    (case create_netlist (pad_config self) (source_row self)
                            (analysis_padnames self) nodes of
                       Inl e \<Rightarrow> Inl e
                     | Inr netlist \<Rightarrow>
                         (case ng_run netlist of
                            Inl e \<Rightarrow> Inl e
                          | Inr data \<Rightarrow>
                              (case create_voltages data nodes of
                                 Inl e \<Rightarrow> Inl e
                               | Inr vs \<Rightarrow>
                                   Inr \<lparr>analysis_nodes = nodes, analysis_netlist = netlist,
                                        node_voltages = vs\<rparr>))))))"

text \<open>\<^verbatim>\<open>OnStartAnalysis\<close>: \<open>None\<close> when \<^verbatim>\<open>run_analysis\<close> is not called, else its outcome.\<close>

definition OnStartAnalysis ::
  "(string list \<Rightarrow> error + spice_data) \<Rightarrow> gui \<Rightarrow> (error + analysis) option" where
  "OnStartAnalysis ng_run self =
     (if source_row self \<noteq> - 1 then Some (run_analysis ng_run self) else None)"

section \<open>The user's events\<close>

text \<open>
  What the toolkit does around the handlers. Choosing entry \<open>k\<close> of the combo box calls
  \<^verbatim>\<open>OnSelectNet\<close>. Clicking the source cell of an existing row flips the cell and then
  sends the value-changed event for column 2 of that row; editing the current draw of a
  row stores the text and sends the event for column 1. Pressing the button calls
  \<^verbatim>\<open>OnStartAnalysis\<close>, which leaves the window as it is.
\<close>

datatype event = SelectNet int | ToggleSource nat | EditCurrentDraw nat string | StartAnalysis

definition toggle_source :: "nat \<Rightarrow> gui \<Rightarrow> gui" where
  "toggle_source r self =
     fst (OnSelectSource
            (self\<lparr>pad_config :=
                    (pad_config self)[r := (pad_config self ! r)
                                        \<lparr>source := \<not> source (pad_config self ! r)\<rparr>]\<rparr>)
            2 (int r))"

definition edit_current_draw :: "nat \<Rightarrow> string \<Rightarrow> gui \<Rightarrow> gui" where
  "edit_current_draw r txt self =
     fst (OnSelectSource
            (self\<lparr>pad_config :=
                    (pad_config self)[r := (pad_config self ! r)\<lparr>current_draw := txt\<rparr>]\<rparr>)
            1 (int r))"

fun handle :: "event \<Rightarrow> gui \<Rightarrow> gui" where
  "handle (SelectNet k) self = fst (OnSelectNet self k)"
| "handle (ToggleSource r) self =
     (if r < length (pad_config self) then toggle_source r self else self)"
| "handle (EditCurrentDraw r txt) self =
     (if r < length (pad_config self) then edit_current_draw r txt self else self)"
| "handle StartAnalysis self = self"

text \<open>The window after a sequence of events, the first event first.\<close>

definition run_events :: "event list \<Rightarrow> gui \<Rightarrow> gui" where
  "run_events evs self = fold handle evs self"

section \<open>Notions used to state the properties\<close>

text \<open>
  How many elements a loop with \<^verbatim>\<open>break\<close> at the first hit looks at: all of them when
  none hits, else the ones up to and including the first hit.
\<close>

definition tested :: "('a \<Rightarrow> bool) \<Rightarrow> 'a list \<Rightarrow> nat" where
  "tested hit xs = min (length xs) (Suc (length (takeWhile (\<lambda>x. \<not> hit x) xs)))"

text \<open>The point tested at grid index \<open>(i, j)\<close>.\<close>

definition grid_point :: "bounding_box \<Rightarrow> nat \<Rightarrow> nat \<Rightarrow> point" where
  "grid_point bb i j =
     (GetX bb + int i * analysis_grid_spacing, GetY bb + int j * analysis_grid_spacing)"

text \<open>
  The four-neighbour stencil in the words of the description: the links of the node at
  \<open>(i, j)\<close> to its right, bottom, left and top neighbour, where both ends are on the net;
  the links of all nodes that are not on the first or last row or column, row by row;
  and the resistor lines of a list of links, numbered from \<open>n\<close>.
\<close>

definition node_links :: "string list list \<Rightarrow> nat \<Rightarrow> nat \<Rightarrow> (string \<times> string) list" where
  "node_links nodes i j =
     (if nodes ! i ! j \<noteq> '''' then
        map (\<lambda>b. (nodes ! i ! j, b))
          (filter (\<lambda>b. b \<noteq> '''')
             [nodes ! (i + 1) ! j, nodes ! i ! (j + 1), nodes ! (i - 1) ! j, nodes ! i ! (j - 1)])
      else [])"

definition stencil_links :: "string list list \<Rightarrow> (string \<times> string) list" where
  "stencil_links nodes =
     concat (map (\<lambda>i. concat (map (\<lambda>j. node_links nodes i j) [1..<length (nodes ! 0) - 1]))
               [1..<length nodes - 1])"

fun numbered :: "nat \<Rightarrow> (string \<times> string) list \<Rightarrow> string list" where
  "numbered n [] = []"
| "numbered n ((a, b) # links) = resistor_line n a b # numbered (Suc n) links"

text \<open>The row that \<^verbatim>\<open>OnSelectNet\<close> appends for a pad.\<close>

definition new_row :: "pad \<Rightarrow> cfg_row" where
  "new_row p =
     \<lparr>pad_name = GetReference p @ ''-Pad'' @ GetPadName p, current_draw = ''0'', source = False\<rparr>"

text \<open>
  The source selection is consistent: a row has its toggle set exactly if it is the
  remembered source row, the remembered row is \<open>-1\<close> or a row of the list, and the start
  button is enabled exactly if a row is remembered.
\<close>

definition source_invariant :: "gui \<Rightarrow> bool" where
  "source_invariant self \<longleftrightarrow>
     (\<forall>k<length (pad_config self). source (pad_config self ! k) \<longleftrightarrow> source_row self = int k) \<and>
     (source_row self = - 1 \<or>
      (0 \<le> source_row self \<and> source_row self < int (length (pad_config self)))) \<and>
     (start_button_enabled self \<longleftrightarrow> source_row self \<noteq> - 1)"

text \<open>
  What holds of the window after any sequence of events on the board \<open>b\<close>: the board and
  the net lists are those of the constructor, the source selection is consistent, and
  when the configuration list has rows, the analysis attributes exist and the lists of
  analysis pads and pad names have one entry per row.
\<close>

definition window_invariant :: "board \<Rightarrow> gui \<Rightarrow> bool" where
  "window_invariant b self \<longleftrightarrow>
     board self = b \<and>
     netnames self = netnames (init b) \<and> nets self = nets (init b) \<and>
     source_invariant self \<and>
     (pad_config self = [] \<or>
      (\<exists>aps names n nm.
         analysis_pads self = Some aps \<and> analysis_padnames self = Some names \<and>
         analysis_net self = Some n \<and> analysis_netname self = Some nm \<and>
         length aps = length (pad_config self) \<and> length names = length (pad_config self)))"

text \<open>
  What the analysis attributes are while the configuration list has rows: the selected
  name and net are a pair of the board's net map, the analysis pads are the board's pads
  with that net name, and the rows and the pad names name these pads, in the same order.
\<close>

definition analysis_invariant :: "board \<Rightarrow> gui \<Rightarrow> bool" where
  "analysis_invariant b self \<longleftrightarrow>
     pad_config self = [] \<or>
     (\<exists>nm n.
        analysis_netname self = Some nm \<and> analysis_net self = Some n \<and>
        (nm, n) \<in> set (GetNetsByName b) \<and>
        analysis_pads self = Some (filter (\<lambda>p. GetNetname p = nm) (GetPads b)) \<and>
        analysis_padnames self = Some (map pad_name (pad_config self)) \<and>
        map pad_name (pad_config self) =
          map (\<lambda>p. GetReference p @ ''-Pad'' @ GetPadName p)
            (filter (\<lambda>p. GetNetname p = nm) (GetPads b)))"

section \<open>Example boards\<close>

text \<open>
  A board of 0.3 mm by 0.25 mm whose edge box starts at (1000, 2000): three grid columns
  and three grid rows. Net VCC has the pads J1-1 (on the middle grid point) and U1-8 (on
  the point right of it) and one track that covers the two upper grid rows; J1-2 is on
  GND. The user selects VCC, enters a current draw of 0.5 for U1-8 and makes J1-1 the
  source.
\<close>

definition demo_pads :: "pad list" where
  "demo_pads =
     [\<lparr>GetNetname = ''VCC'', GetPadName = ''1'', GetReference = ''J1'',
       HitTest = (\<lambda>pt. pt = (101000, 102000))\<rparr>,
      \<lparr>GetNetname = ''GND'', GetPadName = ''2'', GetReference = ''J1'',
       HitTest = (\<lambda>pt. pt = (1000, 2000))\<rparr>,
      \<lparr>GetNetname = ''VCC'', GetPadName = ''8'', GetReference = ''U1'',
       HitTest = (\<lambda>pt. pt = (201000, 102000))\<rparr>]"

definition demo_tracks :: "track list" where
  "demo_tracks = [\<lparr>TrackHitTest = (\<lambda>pt. snd pt \<le> 102000)\<rparr>]"

definition demo_box :: bounding_box where
  "demo_box = \<lparr>GetX = 1000, GetY = 2000, GetWidth = 300000, GetHeight = 250000\<rparr>"

definition demo_board :: board where
  "demo_board =
     \<lparr>GetNetsByName = [('''', \<lparr>GetNet = 0\<rparr>), (''GND'', \<lparr>GetNet = 1\<rparr>), (''VCC'', \<lparr>GetNet = 2\<rparr>)],
      GetPads = demo_pads,
      TracksInNet = (\<lambda>code. if code = 2 then demo_tracks else []),
      GetBoardEdgesBoundingBox = demo_box\<rparr>"

definition demo_events :: "event list" where
  "demo_events = [SelectNet 1, EditCurrentDraw 1 ''0.5'', ToggleSource 0]"

definition demo_gui :: gui where
  "demo_gui = run_events demo_events (init demo_board)"

definition demo_cfg :: "cfg_row list" where
  "demo_cfg =
     [\<lparr>pad_name = ''J1-Pad1'', current_draw = ''0'', source = True\<rparr>,
      \<lparr>pad_name = ''U1-Pad8'', current_draw = ''0.5'', source = False\<rparr>]"

definition demo_analysis_pads :: "pad list" where
  "demo_analysis_pads = [demo_pads ! 0, demo_pads ! 2]"

definition demo_nodes :: "string list list" where
  "demo_nodes =
     [[''n0x0'', ''n0x1'', ''''],
      [''n1x0'', ''J1-Pad1'', ''''],
      [''n2x0'', ''U1-Pad8'', '''']]"

definition demo_netlist :: "string list" where
  "demo_netlist =
     [''analysis'',
      ''R1 J1-Pad1 U1-Pad8 0.0005'',
      ''R2 J1-Pad1 n0x1 0.0005'',
      ''R3 J1-Pad1 n1x0 0.0005'',
      ''V1 J1-Pad1 0 3.3'',
      ''I1 U1-Pad8 0 0.5'',
      ''.op'',
      ''.end'']"

text \<open>A result of the solver that has a voltage for every node name of the grid.\<close>

definition demo_data :: spice_data where
  "demo_data =
     map_of [(''op1'',
       map_of [(''j1-pad1'', [3.3 :: real]), (''u1-pad8'', [3.29975]), (''n0x1'', [3.3]),
               (''n1x0'', [3.3]), (''n0x0'', [3.3]), (''n2x0'', [3.3])])]"

text \<open>
  A board of one grid point on which two pads of the net lie on top of each other: a test
  point TP1-1 placed on the pad U1-1. The user enters a current draw for U1-1 and makes
  J1-1, which lies elsewhere, the source.
\<close>

definition overlap_board :: board where
  "overlap_board =
     \<lparr>GetNetsByName = [(''VCC'', \<lparr>GetNet = 1\<rparr>)],
      GetPads =
        [\<lparr>GetNetname = ''VCC'', GetPadName = ''1'', GetReference = ''TP1'',
          HitTest = (\<lambda>pt. pt = (0, 0))\<rparr>,
         \<lparr>GetNetname = ''VCC'', GetPadName = ''1'', GetReference = ''U1'',
          HitTest = (\<lambda>pt. pt = (0, 0))\<rparr>,
         \<lparr>GetNetname = ''VCC'', GetPadName = ''1'', GetReference = ''J1'',
          HitTest = (\<lambda>pt. pt = (50000, 50000))\<rparr>],
      TracksInNet = (\<lambda>code. []),
      GetBoardEdgesBoundingBox = \<lparr>GetX = 0, GetY = 0, GetWidth = 100000, GetHeight = 100000\<rparr>\<rparr>"

definition overlap_gui :: gui where
  "overlap_gui =
     run_events [SelectNet 0, EditCurrentDraw 1 ''0.5'', ToggleSource 2] (init overlap_board)"

section \<open>The loops\<close>

lemma for_enum_InrD:
  "for_enum body k xs = Inr vs \<Longrightarrow>
     length vs = length xs \<and> (\<forall>n<length xs. body (k + n) (xs ! n) = Inr (vs ! n))"
proof (induction xs arbitrary: k vs)
  case Nil
  then show ?case by simp
next
  case (Cons x xs)
  from Cons.prems obtain v vs' where b: "body k x = Inr v"
    and r: "for_enum body (Suc k) xs = Inr vs'" and vs: "vs = v # vs'"
    by (auto split: sum.splits)
  from Cons.IH [OF r] have len: "length vs' = length xs"
    and nth: "\<And>n. n < length xs \<Longrightarrow> body (Suc k + n) (xs ! n) = Inr (vs' ! n)"
    by auto
  show ?case
  proof (intro conjI allI impI)
    show "length vs = length (x # xs)" using len vs by simp
  next
    fix n assume "n < length (x # xs)"
    then show "body (k + n) ((x # xs) ! n) = Inr (vs ! n)"
      using b nth vs by (cases n) auto
  qed
qed

lemma for_enum_InrI:
  "(\<And>n. n < length xs \<Longrightarrow> \<exists>v. body (k + n) (xs ! n) = Inr v) \<Longrightarrow>
     \<exists>vs. for_enum body k xs = Inr vs"
proof (induction xs arbitrary: k)
  case Nil
  then show ?case by simp
next
  case (Cons x xs)
  from Cons.prems [of 0] obtain v where b: "body k x = Inr v" by auto
  have "\<And>n. n < length xs \<Longrightarrow> \<exists>v. body (Suc k + n) (xs ! n) = Inr v"
    using Cons.prems [of "Suc _"] by auto
  from Cons.IH [OF this] obtain vs where "for_enum body (Suc k) xs = Inr vs" by auto
  with b show ?case by simp
qed

lemma grid_range_length_nth:
  "(n < length (grid_range a b) \<longleftrightarrow> a + int n * analysis_grid_spacing < b) \<and>
   (n < length (grid_range a b) \<longrightarrow> grid_range a b ! n = a + int n * analysis_grid_spacing)"
proof (induction a b arbitrary: n rule: grid_range.induct)
  case (1 start stop)
  show ?case
  proof (cases "start < stop")
    case False
    then have "grid_range start stop = []" by (simp add: grid_range.simps)
    moreover have "\<not> start + int n * analysis_grid_spacing < stop"
      using False by (simp add: analysis_grid_spacing_def)
    ultimately show ?thesis by simp
  next
    case True
    then have eq: "grid_range start stop = start # grid_range (start + analysis_grid_spacing) stop"
      by (subst grid_range.simps) simp
    show ?thesis
    proof (cases n)
      case 0
      then show ?thesis using True eq by simp
    next
      case (Suc m)
      from "1.IH" [OF True, of m] show ?thesis
        using eq Suc by (simp add: algebra_simps)
    qed
  qed
qed

section \<open>Hit tests of one point\<close>

lemma pad_node_name_row:
  "index < length cfg \<Longrightarrow>
     pad_node_name cfg index nm =
       Inr (if current_draw (cfg ! index) \<noteq> ''0'' \<or> source (cfg ! index)
            then pad_name (cfg ! index) else nm)"
  by (simp add: pad_node_name_def GetTextValue_def GetToggleValue_def)

lemma pad_node_name_Inr:
  "pad_node_name cfg index nm = Inr v \<Longrightarrow> index < length cfg"
  by (auto simp: pad_node_name_def GetTextValue_def split: if_splits sum.splits)


lemma tested_Nil: "tested hit [] = 0"
  by (simp add: tested_def)

lemma tested_Cons: "tested hit (x # xs) = (if hit x then 1 else Suc (tested hit xs))"
  by (simp add: tested_def)

lemma tested_miss: "(\<forall>x\<in>set xs. \<not> hit x) \<Longrightarrow> tested hit xs = length xs"
  by (induction xs) (simp_all add: tested_Nil tested_Cons)

lemma upt_shift: "k # [Suc k..<Suc k + n] = [k..<k + Suc n]"
  by (simp add: upt_rec)

lemma check_pads_Inr:
  "check_pads cfg pt nm index pads = Inr c \<Longrightarrow>
     (node_on_net c \<longleftrightarrow> (\<exists>p\<in>set pads. HitTest p pt)) \<and>
     probes c = map PadProbe [index..<index + tested (\<lambda>p. HitTest p pt) pads]"
proof (induction pads arbitrary: index c)
  case Nil
  then show ?case by (auto simp: tested_Nil)
next
  case (Cons p rest)
  show ?case
  proof (cases "HitTest p pt")
    case True
    with Cons.prems show ?thesis
      by (auto simp: tested_Cons split: sum.splits)
  next
    case False
    with Cons.prems obtain c' where r: "check_pads cfg pt nm (Suc index) rest = Inr c'"
      and c: "c = c'\<lparr>probes := PadProbe index # probes c'\<rparr>"
      by (auto split: sum.splits)
    from Cons.IH [OF r] have
      on: "node_on_net c' \<longleftrightarrow> (\<exists>p\<in>set rest. HitTest p pt)" and
      pr: "probes c' = map PadProbe [Suc index..<Suc index + tested (\<lambda>p. HitTest p pt) rest]"
      by auto
    have "probes c = map PadProbe (index # [Suc index..<Suc index + tested (\<lambda>p. HitTest p pt) rest])"
      using c pr by simp
    also have "\<dots> = map PadProbe [index..<index + tested (\<lambda>p. HitTest p pt) (p # rest)]"
      using False by (simp only: upt_shift tested_Cons if_False)
    finally show ?thesis using on c False by simp
  qed
qed

lemma check_pads_name:
  "check_pads cfg pt nm index pads = Inr c \<Longrightarrow>
     (\<forall>k<length pads. HitTest (pads ! k) pt \<and> (\<forall>m<k. \<not> HitTest (pads ! m) pt) \<longrightarrow>
        index + k < length cfg \<and>
        node_name c =
          (if current_draw (cfg ! (index + k)) \<noteq> ''0'' \<or> source (cfg ! (index + k))
           then pad_name (cfg ! (index + k)) else nm)) \<and>
     ((\<forall>p\<in>set pads. \<not> HitTest p pt) \<longrightarrow> node_name c = nm)"
proof (induction pads arbitrary: index c)
  case Nil
  then show ?case by auto
next
  case (Cons p rest)
  show ?case
  proof (cases "HitTest p pt")
    case True
    with Cons.prems obtain v where v: "pad_node_name cfg index nm = Inr v"
      and c: "node_name c = v"
      by (auto split: sum.splits)
    from pad_node_name_Inr [OF v] have lt: "index < length cfg" .
    have first: "k = 0" if "k < length (p # rest)" "\<forall>m<k. \<not> HitTest ((p # rest) ! m) pt" for k
      using that True by (cases k) auto
    have nm: "node_name c =
          (if current_draw (cfg ! index) \<noteq> ''0'' \<or> source (cfg ! index)
           then pad_name (cfg ! index) else nm)"
      using v c pad_node_name_row [OF lt, of nm] by simp
    show ?thesis
    proof (intro conjI allI impI)
      fix k assume "k < length (p # rest)"
        and "HitTest ((p # rest) ! k) pt \<and> (\<forall>m<k. \<not> HitTest ((p # rest) ! m) pt)"
      then have "k = 0" using first by blast
      then show "index + k < length cfg" and
        "node_name c =
          (if current_draw (cfg ! (index + k)) \<noteq> ''0'' \<or> source (cfg ! (index + k))
           then pad_name (cfg ! (index + k)) else nm)"
        using lt nm by simp_all
    next
      assume "\<forall>p\<in>set (p # rest). \<not> HitTest p pt"
      then show "node_name c = nm" using True by simp
    qed
  next
    case False
    with Cons.prems obtain c' where r: "check_pads cfg pt nm (Suc index) rest = Inr c'"
      and c: "node_name c = node_name c'"
      by (auto split: sum.splits)
    note IH = Cons.IH [OF r]
    show ?thesis
    proof (intro conjI allI impI)
      fix k assume k: "k < length (p # rest)"
        and h: "HitTest ((p # rest) ! k) pt \<and> (\<forall>m<k. \<not> HitTest ((p # rest) ! m) pt)"
      from h False obtain k' where k': "k = Suc k'" by (cases k) auto
      have "k' < length rest" using k k' by simp
      moreover have "HitTest (rest ! k') pt" using h k' by simp
      moreover have "\<forall>m<k'. \<not> HitTest (rest ! m) pt"
      proof (intro allI impI)
        fix m assume "m < k'"
        then have "Suc m < k" using k' by simp
        with h have "\<not> HitTest ((p # rest) ! Suc m) pt" by blast
        then show "\<not> HitTest (rest ! m) pt" by simp
      qed
      ultimately have "Suc index + k' < length cfg \<and>
        node_name c' =
          (if current_draw (cfg ! (Suc index + k')) \<noteq> ''0'' \<or> source (cfg ! (Suc index + k'))
           then pad_name (cfg ! (Suc index + k')) else nm)"
        using IH by blast
      then show "index + k < length cfg" and
        "node_name c =
          (if current_draw (cfg ! (index + k)) \<noteq> ''0'' \<or> source (cfg ! (index + k))
           then pad_name (cfg ! (index + k)) else nm)"
        using c k' by simp_all
    next
      assume "\<forall>p\<in>set (p # rest). \<not> HitTest p pt"
      then show "node_name c = nm" using IH c by simp
    qed
  qed
qed

lemma check_pads_total:
  "index + length pads \<le> length cfg \<Longrightarrow> \<exists>c. check_pads cfg pt nm index pads = Inr c"
proof (induction pads arbitrary: index)
  case Nil
  then show ?case by simp
next
  case (Cons p rest)
  then have lt: "index < length cfg" and "Suc index + length rest \<le> length cfg" by simp_all
  from Cons.IH [OF this(2)] obtain c where "check_pads cfg pt nm (Suc index) rest = Inr c" ..
  then show ?case using pad_node_name_row [OF lt, of nm] by simp
qed

lemma check_tracks_eq:
  "check_tracks pt k ts =
     ((\<exists>t\<in>set ts. TrackHitTest t pt), map TrackProbe [k..<k + tested (\<lambda>t. TrackHitTest t pt) ts])"
proof (induction ts arbitrary: k)
  case Nil
  then show ?case by (simp add: tested_Nil)
next
  case (Cons t rest)
  show ?case
  proof (cases "TrackHitTest t pt")
    case True
    then show ?thesis by (simp add: tested_Cons)
  next
    case False
    have "TrackProbe k # map TrackProbe [Suc k..<Suc k + tested (\<lambda>t. TrackHitTest t pt) rest]
        = map TrackProbe (k # [Suc k..<Suc k + tested (\<lambda>t. TrackHitTest t pt) rest])" by simp
    also have "\<dots> = map TrackProbe [k..<k + tested (\<lambda>t. TrackHitTest t pt) (t # rest)]"
      using False by (simp only: upt_shift tested_Cons if_False)
    finally show ?thesis using False Cons.IH [of "Suc k"] by simp
  qed
qed

section \<open>The resistor loop computes the stencil\<close>

lemma numbered_append:
  "numbered n (xs @ ys) = numbered n xs @ numbered (n + length xs) ys"
  by (induction xs arbitrary: n) auto

lemma length_numbered: "length (numbered n xs) = length xs"
  by (induction xs arbitrary: n) auto

lemma numbered_nth:
  "k < length xs \<Longrightarrow> numbered n xs ! k = resistor_line (n + k) (fst (xs ! k)) (snd (xs ! k))"
proof (induction xs arbitrary: n k)
  case Nil
  then show ?case by simp
next
  case (Cons x xs)
  obtain a b where x: "x = (a, b)" by (cases x)
  show ?case
  proof (cases k)
    case 0
    then show ?thesis using x by simp
  next
    case (Suc m)
    then have "m < length xs" using Cons.prems by simp
    from Cons.IH [OF this, of "Suc n"] show ?thesis using x Suc by simp
  qed
qed

lemma connect_node_links:
  "connect_node nodes i j (nl, n) =
     (nl @ numbered n (node_links nodes i j), n + length (node_links nodes i j))"
  by (simp add: connect_node_def node_links_def add_resistor_def Let_def)

lemma fold_connect_node:
  "fold (\<lambda>j. connect_node nodes i j) js (nl, n) =
     (nl @ numbered n (concat (map (node_links nodes i) js)),
      n + length (concat (map (node_links nodes i) js)))"
proof (induction js arbitrary: nl n)
  case Nil
  then show ?case by simp
next
  case (Cons j js)
  show ?case
    by (simp only: fold_Cons o_apply connect_node_links Cons.IH list.map concat.simps
          numbered_append append_assoc length_append add.assoc)
qed

lemma fold_connect_rows:
  "fold (\<lambda>i. fold (\<lambda>j. connect_node nodes i j) js) is (nl, n) =
     (nl @ numbered n (concat (map (\<lambda>i. concat (map (node_links nodes i) js)) is)),
      n + length (concat (map (\<lambda>i. concat (map (node_links nodes i) js)) is)))"
proof (induction "is" arbitrary: nl n)
  case Nil
  then show ?case by simp
next
  case (Cons i "is")
  show ?case
    by (simp only: fold_Cons o_apply fold_connect_node Cons.IH list.map concat.simps
          numbered_append append_assoc length_append add.assoc)
qed

lemma connect_nodes_links:
  "connect_nodes nodes (nl, n) =
     (nl @ numbered n (stencil_links nodes), n + length (stencil_links nodes))"
  unfolding connect_nodes_def stencil_links_def by (rule fold_connect_rows)

section \<open>Creating the nodes: what the loops return\<close>

lemma test_node_Inr:
  assumes "test_node cfg (Some pads) tracks pt i j = Inr c"
  shows "(node_on_net c \<longleftrightarrow>
            (\<exists>p\<in>set pads. HitTest p pt) \<or> (\<exists>t\<in>set tracks. TrackHitTest t pt))"
    and "probes c =
           map PadProbe [0..<tested (\<lambda>p. HitTest p pt) pads] @
           (if \<exists>p\<in>set pads. HitTest p pt then []
            else map TrackProbe [0..<tested (\<lambda>t. TrackHitTest t pt) tracks])"
    and "\<exists>c'. check_pads cfg pt (''n'' @ str_nat i @ ''x'' @ str_nat j) 0 pads = Inr c' \<and>
           node_name c = node_name c'"
proof -
  from assms obtain c' where
    cp: "check_pads cfg pt (''n'' @ str_nat i @ ''x'' @ str_nat j) 0 pads = Inr c'"
    by (auto simp: test_node_def split: sum.splits)
  from check_pads_Inr [OF cp] have
    on: "node_on_net c' \<longleftrightarrow> (\<exists>p\<in>set pads. HitTest p pt)" and
    pr: "probes c' = map PadProbe [0..<tested (\<lambda>p. HitTest p pt) pads]"
    by simp_all
  have c: "c = (if \<not> node_on_net c' then
                 c'\<lparr>node_on_net := (\<exists>t\<in>set tracks. TrackHitTest t pt),
                    probes := probes c' @
                      map TrackProbe [0..<tested (\<lambda>t. TrackHitTest t pt) tracks]\<rparr>
               else c')"
    using assms cp by (cases "node_on_net c'") (simp_all add: test_node_def check_tracks_eq)
  show "(node_on_net c \<longleftrightarrow>
            (\<exists>p\<in>set pads. HitTest p pt) \<or> (\<exists>t\<in>set tracks. TrackHitTest t pt))"
    using c on by (cases "node_on_net c'") auto
  show "probes c =
           map PadProbe [0..<tested (\<lambda>p. HitTest p pt) pads] @
           (if \<exists>p\<in>set pads. HitTest p pt then []
            else map TrackProbe [0..<tested (\<lambda>t. TrackHitTest t pt) tracks])"
    using c on pr by (cases "node_on_net c'") auto
  show "\<exists>c'. check_pads cfg pt (''n'' @ str_nat i @ ''x'' @ str_nat j) 0 pads = Inr c' \<and>
           node_name c = node_name c'"
    using c cp by (cases "node_on_net c'") auto
qed

lemma test_node_total:
  "length pads \<le> length cfg \<Longrightarrow> \<exists>c. test_node cfg (Some pads) tracks pt i j = Inr c"
proof -
  assume "length pads \<le> length cfg"
  then have "0 + length pads \<le> length cfg" by simp
  from check_pads_total [OF this] obtain c' where
    "check_pads cfg pt (''n'' @ str_nat i @ ''x'' @ str_nat j) 0 pads = Inr c'" by blast
  then show ?thesis
    by (simp add: test_node_def split: prod.splits)
qed

lemma create_line_Inr:
  assumes "create_line cfg pads tracks ys i x = Inr line"
  shows "length line = length ys"
    and "j < length ys \<Longrightarrow>
           \<exists>c. test_node cfg pads tracks (x, ys ! j) i j = Inr c \<and> line ! j = node_entry c"
proof -
  note D = for_enum_InrD [OF assms [unfolded create_line_def]]
  from D show "length line = length ys" by simp
  assume "j < length ys"
  with D have "(case test_node cfg pads tracks (x, ys ! j) i (0 + j) of
                  Inl e \<Rightarrow> Inl e | Inr c \<Rightarrow> Inr (node_entry c)) = Inr (line ! j)" by blast
  then show "\<exists>c. test_node cfg pads tracks (x, ys ! j) i j = Inr c \<and> line ! j = node_entry c"
    by (auto split: sum.splits)
qed

lemma create_nodes_Inr:
  assumes "create_nodes cfg pads tracks bb = Inr nodes"
  shows "length nodes = length (grid_range (GetX bb) (GetX bb + GetWidth bb))"
    and "i < length nodes \<Longrightarrow>
           length (nodes ! i) = length (grid_range (GetY bb) (GetY bb + GetHeight bb))"
    and "i < length nodes \<Longrightarrow> j < length (nodes ! i) \<Longrightarrow>
           \<exists>c. test_node cfg pads tracks (grid_point bb i j) i j = Inr c \<and>
               nodes ! i ! j = node_entry c"
proof -
  let ?xs = "grid_range (GetX bb) (GetX bb + GetWidth bb)"
  let ?ys = "grid_range (GetY bb) (GetY bb + GetHeight bb)"
  have run: "for_enum (create_line cfg pads tracks ?ys) 0 ?xs = Inr nodes"
    using assms by (simp add: create_nodes_def Let_def)
  note D = for_enum_InrD [OF run]
  from D show len: "length nodes = length ?xs" by simp
  have line: "create_line cfg pads tracks ?ys i (?xs ! i) = Inr (nodes ! i)"
    if "i < length nodes" for i
    using D that len by (metis add_0)
  show "length (nodes ! i) = length ?ys" if "i < length nodes"
    using create_line_Inr(1) [OF line [OF that]] .
  show "\<exists>c. test_node cfg pads tracks (grid_point bb i j) i j = Inr c \<and>
            nodes ! i ! j = node_entry c"
    if i: "i < length nodes" and j: "j < length (nodes ! i)"
  proof -
    have j': "j < length ?ys" using create_line_Inr(1) [OF line [OF i]] j by simp
    have x: "?xs ! i = GetX bb + int i * analysis_grid_spacing"
      using grid_range_length_nth [of i "GetX bb" "GetX bb + GetWidth bb"] i len by simp
    have y: "?ys ! j = GetY bb + int j * analysis_grid_spacing"
      using grid_range_length_nth [of j "GetY bb" "GetY bb + GetHeight bb"] j' by simp
    from create_line_Inr(2) [OF line [OF i] j'] show ?thesis
      by (simp add: grid_point_def x y)
  qed
qed

lemma create_nodes_total:
  assumes "length pads \<le> length cfg"
  shows "\<exists>nodes. create_nodes cfg (Some pads) tracks bb = Inr nodes"
proof -
  have line: "\<exists>l. create_line cfg (Some pads) tracks ys i x = Inr l" for ys i x
    unfolding create_line_def
  proof (rule for_enum_InrI)
    fix n
    from test_node_total [OF assms] obtain c where
      "test_node cfg (Some pads) tracks (x, ys ! n) i (0 + n) = Inr c" by blast
    then show "\<exists>v. (case test_node cfg (Some pads) tracks (x, ys ! n) i (0 + n) of
                      Inl e \<Rightarrow> Inl e | Inr c \<Rightarrow> Inr (node_entry c)) = Inr v"
      by simp
  qed
  show ?thesis
    unfolding create_nodes_def Let_def
    by (rule for_enum_InrI) (rule line)
qed

lemma grid_point_inside:
  "(GetX bb \<le> fst (grid_point bb i j) \<and> fst (grid_point bb i j) < GetX bb + GetWidth bb \<and>
    GetY bb \<le> snd (grid_point bb i j) \<and> snd (grid_point bb i j) < GetY bb + GetHeight bb) \<longleftrightarrow>
   (i < length (grid_range (GetX bb) (GetX bb + GetWidth bb)) \<and>
    j < length (grid_range (GetY bb) (GetY bb + GetHeight bb)))"
proof -
  have "0 \<le> int i * analysis_grid_spacing" "0 \<le> int j * analysis_grid_spacing"
    by (simp_all add: analysis_grid_spacing_def)
  then show ?thesis
    using grid_range_length_nth [of i "GetX bb" "GetX bb + GetWidth bb"]
      grid_range_length_nth [of j "GetY bb" "GetY bb + GetHeight bb"]
    by (simp add: grid_point_def)
qed

section \<open>Membership in the stencil\<close>

lemma numbered_mem:
  "(a, b) \<in> set links \<Longrightarrow> \<exists>m. resistor_line m a b \<in> set (numbered n links)"
proof (induction links arbitrary: n)
  case Nil
  then show ?case by simp
next
  case (Cons x links)
  obtain a' b' where x: "x = (a', b')" by (cases x)
  show ?case
  proof (cases "(a, b) = x")
    case True
    then have "resistor_line n a b \<in> set (numbered n (x # links))" using x by simp
    then show ?thesis ..
  next
    case False
    with Cons.prems have "(a, b) \<in> set links" by simp
    from Cons.IH [OF this, of "Suc n"] show ?thesis using x by auto
  qed
qed

lemma numbered_memD:
  "l \<in> set (numbered n links) \<Longrightarrow> \<exists>m a b. (a, b) \<in> set links \<and> l = resistor_line m a b"
proof (induction links arbitrary: n)
  case Nil
  then show ?case by simp
next
  case (Cons x links)
  obtain a' b' where x: "x = (a', b')" by (cases x)
  from Cons.prems x have "l = resistor_line n a' b' \<or> l \<in> set (numbered (Suc n) links)"
    by simp
  then show ?case
  proof
    assume "l = resistor_line n a' b'"
    then show ?thesis using x by auto
  next
    assume "l \<in> set (numbered (Suc n) links)"
    from Cons.IH [OF this] show ?thesis by auto
  qed
qed

lemma node_links_mem:
  "(a, b) \<in> set (node_links nodes i j) \<longleftrightarrow>
     a = nodes ! i ! j \<and> a \<noteq> '''' \<and> b \<noteq> '''' \<and>
     b \<in> {nodes ! (i + 1) ! j, nodes ! i ! (j + 1), nodes ! (i - 1) ! j, nodes ! i ! (j - 1)}"
  by (auto simp: node_links_def)

lemma interior_index: "(i::nat) \<in> {1..<n - 1} \<longleftrightarrow> 1 \<le> i \<and> i + 1 < n"
  by auto

lemma stencil_links_mem:
  "(a, b) \<in> set (stencil_links nodes) \<longleftrightarrow>
     (\<exists>i j. 1 \<le> i \<and> i + 1 < length nodes \<and> 1 \<le> j \<and> j + 1 < length (nodes ! 0) \<and>
        (a, b) \<in> set (node_links nodes i j))"
proof -
  have "(a, b) \<in> set (stencil_links nodes) \<longleftrightarrow>
     (\<exists>i\<in>{1..<length nodes - 1}. \<exists>j\<in>{1..<length (nodes ! 0) - 1}.
        (a, b) \<in> set (node_links nodes i j))"
    by (simp add: stencil_links_def)
  also have "\<dots> \<longleftrightarrow> (\<exists>i j. 1 \<le> i \<and> i + 1 < length nodes \<and> 1 \<le> j \<and>
       j + 1 < length (nodes ! 0) \<and> (a, b) \<in> set (node_links nodes i j))"
    by (simp only: Bex_def interior_index) blast
  finally show ?thesis .
qed

lemma resistor_line_text:
  "resistor_line n a b = ''R'' @ str_nat n @ '' '' @ a @ '' '' @ b @ '' 0.0005''"
  by (simp add: resistor_line_def analysis_sheet_resistance_def)

lemma concat_map_if:
  "concat (map (\<lambda>i. if P i then [g i] else []) xs) = map g (filter P xs)"
  by (induction xs) auto

lemma current_source_row:
  "i < length cfg \<Longrightarrow>
     current_source cfg i p =
       Inr (if current_draw (cfg ! i) \<noteq> ''0''
            then [current_source_line i (pad_name (cfg ! i)) (current_draw (cfg ! i))] else [])"
  by (simp add: current_source_def GetTextValue_def)

lemma current_sources_run:
  "k + length padnames \<le> length cfg \<Longrightarrow>
     for_enum (current_source cfg) k padnames =
       Inr (map (\<lambda>i. if current_draw (cfg ! i) \<noteq> ''0''
                      then [current_source_line i (pad_name (cfg ! i)) (current_draw (cfg ! i))]
                      else [])
              [k..<k + length padnames])"
proof (induction padnames arbitrary: k)
  case Nil
  then show ?case by simp
next
  case (Cons p padnames)
  then have lt: "k < length cfg" and le: "Suc k + length padnames \<le> length cfg" by simp_all
  have up: "[k..<k + length (p # padnames)] = k # [Suc k..<Suc k + length padnames]"
    by (simp add: upt_rec)
  show ?case
    by (simp only: for_enum.simps current_source_row [OF lt] Cons.IH [OF le] up list.map
          sum.case)
qed

lemma create_netlist_run:
  assumes "0 \<le> row" and "row < int (length cfg)"
    and "length padnames \<le> length cfg"
  shows "create_netlist cfg row (Some padnames) nodes =
           Inr (''analysis'' # numbered 1 (stencil_links nodes) @
                [''V1 '' @ pad_name (cfg ! nat row) @ '' 0 3.3''] @
                map (\<lambda>i. ''I'' @ str_nat i @ '' '' @ pad_name (cfg ! i) @ '' 0 '' @
                          current_draw (cfg ! i))
                  (filter (\<lambda>i. current_draw (cfg ! i) \<noteq> ''0'') [0..<length padnames]) @
                [''.op'', ''.end''])"
proof -
  have src: "GetTextValue cfg row 0 = Inr (pad_name (cfg ! nat row))"
    using assms(1,2) by (simp add: GetTextValue_def)
  have "0 + length padnames \<le> length cfg" using assms(3) by simp
  note cur = current_sources_run [OF this]
  show ?thesis
    by (simp add: create_netlist_def connect_nodes_links src cur concat_map_if
          voltage_source_line_def format_source_voltage_def current_source_line_def)
qed

section \<open>The example boards, evaluated\<close>

lemma demo_gui_cfg: "pad_config demo_gui = demo_cfg"
  by (simp add: demo_gui_def demo_events_def run_events_def init_def demo_board_def demo_pads_def
      OnSelectNet_def py_index_def toggle_source_def edit_current_draw_def OnSelectSource_def
      SetToggleValue_def demo_cfg_def Let_def)

lemma demo_nodes_eval:
  "create_nodes demo_cfg (Some demo_analysis_pads) demo_tracks demo_box = Inr demo_nodes"
  by (simp add: create_nodes_def create_line_def demo_box_def grid_range.simps
      analysis_grid_spacing_def test_node_def demo_analysis_pads_def demo_pads_def demo_cfg_def
      pad_node_name_def GetTextValue_def GetToggleValue_def demo_tracks_def node_entry_def
      str_nat.simps demo_nodes_def Let_def)

lemma overlap_gui_eval:
  "pad_config overlap_gui =
     [\<lparr>pad_name = ''TP1-Pad1'', current_draw = ''0'', source = False\<rparr>,
      \<lparr>pad_name = ''U1-Pad1'', current_draw = ''0.5'', source = False\<rparr>,
      \<lparr>pad_name = ''J1-Pad1'', current_draw = ''0'', source = True\<rparr>]"
  "analysis_pads overlap_gui = Some (GetPads overlap_board)"
  by (simp_all add: overlap_gui_def run_events_def init_def overlap_board_def
      OnSelectNet_def py_index_def toggle_source_def edit_current_draw_def OnSelectSource_def
      SetToggleValue_def Let_def)

lemma demo_connect_eval:
  "connect_nodes demo_nodes ([''analysis''], Suc 0) =
     ([''analysis'', ''R1 J1-Pad1 U1-Pad8 0.0005'', ''R2 J1-Pad1 n0x1 0.0005'',
       ''R3 J1-Pad1 n1x0 0.0005''], 4)"
  by (simp add: connect_nodes_def connect_node_def add_resistor_def resistor_line_def
      demo_nodes_def analysis_sheet_resistance_def str_nat.simps Let_def upt_rec)

lemma demo_netlist_eval:
  "create_netlist demo_cfg 0 (Some [''J1-Pad1'', ''U1-Pad8'']) demo_nodes = Inr demo_netlist"
  by (simp add: create_netlist_def demo_connect_eval demo_cfg_def GetTextValue_def
      current_source_def current_source_line_def voltage_source_line_def
      format_source_voltage_def str_nat.simps demo_netlist_def)

lemma demo_gui_eval:
  "demo_gui =
     \<lparr>board = demo_board, netnames = [''GND'', ''VCC''], nets = [\<lparr>GetNet = 1\<rparr>, \<lparr>GetNet = 2\<rparr>],
      pad_config = demo_cfg, source_row = 0, start_button_enabled = True,
      analysis_netname = Some ''VCC'', analysis_net = Some \<lparr>GetNet = 2\<rparr>,
      analysis_padnames = Some [''J1-Pad1'', ''U1-Pad8''],
      analysis_pads = Some demo_analysis_pads\<rparr>"
  by (simp add: demo_gui_def demo_events_def run_events_def init_def demo_board_def demo_pads_def
      OnSelectNet_def py_index_def toggle_source_def edit_current_draw_def OnSelectSource_def
      SetToggleValue_def demo_cfg_def demo_analysis_pads_def Let_def)

lemma lower_eval:
  "lower ''J1-Pad1'' = ''j1-pad1''" "lower ''U1-Pad8'' = ''u1-pad8''"
  "lower ''n0x0'' = ''n0x0''" "lower ''n0x1'' = ''n0x1''" "lower ''n1x0'' = ''n1x0''"
  "lower ''n2x0'' = ''n2x0''"
  by (simp_all add: lower_def lower_char_def)

lemma demo_voltages_eval:
  "create_voltages demo_data demo_nodes =
     Inr [[3.3, 3.3, 3.3], [3.3, 3.3, 3.3], [3.3, 3.29975, 3.3]]"
  by (simp add: create_voltages_def cell_voltage_def demo_nodes_def upt_rec node_voltage_def
      demo_data_def
      lower_eval py_index_def analysis_source_voltage_def)

lemma demo_run_eval:
  "run_analysis (\<lambda>netlist. Inr demo_data) demo_gui =
     Inr \<lparr>analysis_nodes = demo_nodes, analysis_netlist = demo_netlist,
          node_voltages = [[3.3, 3.3, 3.3], [3.3, 3.3, 3.3], [3.3, 3.29975, 3.3]]\<rparr>"
  by (simp add: run_analysis_def demo_gui_eval demo_board_def demo_nodes_eval demo_netlist_eval
      demo_voltages_eval)


section \<open>The handlers, step by step\<close>

lemma select_pads_eq:
  "select_pads nm pads (aps, names, cfg) =
     (aps @ filter (\<lambda>p. GetNetname p = nm) pads,
      names @ map (\<lambda>p. GetReference p @ ''-Pad'' @ GetPadName p)
                (filter (\<lambda>p. GetNetname p = nm) pads),
      cfg @ map new_row (filter (\<lambda>p. GetNetname p = nm) pads))"
  by (induction pads arbitrary: aps names cfg) (simp_all add: Let_def new_row_def)

lemma py_index_nat:
  "0 \<le> k \<Longrightarrow> k < int (length xs) \<Longrightarrow> py_index xs k = Inr (xs ! nat k)"
  by (simp add: py_index_def Let_def)

lemma OnSelectNet_valid:
  assumes "0 \<le> k" and "k < int (length (netnames self))"
    and "length (nets self) = length (netnames self)"
  shows "OnSelectNet self k =
     (self\<lparr>analysis_netname := Some (netnames self ! nat k),
           analysis_net := Some (nets self ! nat k),
           pad_config := map new_row
              (filter (\<lambda>p. GetNetname p = netnames self ! nat k) (GetPads (board self))),
           source_row := - 1, start_button_enabled := False,
           analysis_padnames :=
             (if GetPads (board self) = [] then analysis_padnames self
              else Some (map (\<lambda>p. GetReference p @ ''-Pad'' @ GetPadName p)
                     (filter (\<lambda>p. GetNetname p = netnames self ! nat k) (GetPads (board self))))),
           analysis_pads :=
             (if GetPads (board self) = [] then analysis_pads self
              else Some (filter (\<lambda>p. GetNetname p = netnames self ! nat k)
                     (GetPads (board self))))\<rparr>, None)"
proof -
  have a: "py_index (netnames self) k = Inr (netnames self ! nat k)"
    using assms by (simp add: py_index_nat)
  have b: "py_index (nets self) k = Inr (nets self ! nat k)"
    using assms by (simp add: py_index_nat)
  show ?thesis
    by (cases "GetPads (board self) = []")
       (simp_all add: OnSelectNet_def a b Let_def select_pads_eq)
qed

lemma toggle_source_same:
  assumes "source_invariant self" and "r < length (pad_config self)"
    and "source_row self = int r"
  shows "toggle_source r self =
     self\<lparr>pad_config := (pad_config self)[r := (pad_config self ! r)\<lparr>source := False\<rparr>],
          source_row := - 1, start_button_enabled := False\<rparr>"
proof -
  from assms have "source (pad_config self ! r)" by (simp add: source_invariant_def)
  then show ?thesis using assms(3) by (simp add: toggle_source_def OnSelectSource_def)
qed

lemma toggle_source_first:
  assumes "source_invariant self" and "r < length (pad_config self)"
    and "source_row self = - 1"
  shows "toggle_source r self =
     self\<lparr>pad_config := (pad_config self)[r := (pad_config self ! r)\<lparr>source := True\<rparr>],
          source_row := int r, start_button_enabled := True\<rparr>"
proof -
  from assms have "\<not> source (pad_config self ! r)" by (simp add: source_invariant_def)
  then show ?thesis using assms(3) by (simp add: toggle_source_def OnSelectSource_def)
qed

lemma toggle_source_other:
  assumes "source_invariant self" and "r < length (pad_config self)"
    and "source_row self \<noteq> int r" and "source_row self \<noteq> - 1"
  shows "toggle_source r self =
     self\<lparr>pad_config :=
            ((pad_config self)[r := (pad_config self ! r)\<lparr>source := True\<rparr>])
              [nat (source_row self) :=
                 (pad_config self ! nat (source_row self))\<lparr>source := False\<rparr>],
          source_row := int r, start_button_enabled := True\<rparr>"
proof -
  from assms have ns: "\<not> source (pad_config self ! r)" by (simp add: source_invariant_def)
  from assms have range: "0 \<le> source_row self" "source_row self < int (length (pad_config self))"
    by (simp_all add: source_invariant_def)
  from assms(3) range have ne: "nat (source_row self) \<noteq> r" by auto
  show ?thesis
    using assms(3,4) ns range ne
    by (simp add: toggle_source_def OnSelectSource_def SetToggleValue_def)
qed

lemma source_invariant_toggle:
  assumes "source_invariant self" and "r < length (pad_config self)"
  shows "source_invariant (toggle_source r self)"
proof -
  consider "source_row self = int r" | "source_row self = - 1"
    | "source_row self \<noteq> int r" "source_row self \<noteq> - 1" by blast
  then show ?thesis
  proof cases
    case 1
    show ?thesis
      unfolding toggle_source_same [OF assms 1]
      using assms 1 by (auto simp: source_invariant_def nth_list_update)
  next
    case 2
    show ?thesis
      unfolding toggle_source_first [OF assms 2]
      using assms 2 by (auto simp: source_invariant_def nth_list_update)
  next
    case 3
    from assms 3 have range: "0 \<le> source_row self"
      "source_row self < int (length (pad_config self))"
      by (simp_all add: source_invariant_def)
    show ?thesis
      unfolding toggle_source_other [OF assms 3]
      using assms 3 range by (auto simp: source_invariant_def nth_list_update)
  qed
qed

lemma edit_current_draw_eq:
  "edit_current_draw r txt self =
     self\<lparr>pad_config := (pad_config self)[r := (pad_config self ! r)\<lparr>current_draw := txt\<rparr>]\<rparr>"
  by (simp add: edit_current_draw_def OnSelectSource_def)

lemma source_after_edit:
  "k < length cfg \<Longrightarrow>
     source (cfg[r := (cfg ! r)\<lparr>current_draw := txt\<rparr>] ! k) = source (cfg ! k)"
  by (cases "k = r") simp_all

lemma source_invariant_edit:
  assumes "source_invariant self"
  shows "source_invariant (edit_current_draw r txt self)"
  using assms by (simp add: edit_current_draw_eq source_invariant_def source_after_edit)

section \<open>The window after any sequence of events\<close>

lemma collect_nets_eq:
  "collect_nets items (names, ns) =
     (names @ map fst (filter (\<lambda>(name, n). name \<noteq> '''') items),
      ns @ map snd (filter (\<lambda>(name, n). name \<noteq> '''') items))"
  by (induction items arbitrary: names ns) auto

lemma init_eq:
  "init b =
     \<lparr>board = b,
      netnames = map fst (filter (\<lambda>(name, n). name \<noteq> '''') (GetNetsByName b)),
      nets = map snd (filter (\<lambda>(name, n). name \<noteq> '''') (GetNetsByName b)),
      pad_config = [], source_row = - 1, start_button_enabled = False,
      analysis_netname = None, analysis_net = None, analysis_padnames = None,
      analysis_pads = None\<rparr>"
  by (simp add: init_def collect_nets_eq)

lemma init_net_lists:
  "length (netnames (init b)) = length (nets (init b))"
  "zip (netnames (init b)) (nets (init b)) = filter (\<lambda>(name, n). name \<noteq> '''') (GetNetsByName b)"
  by (simp_all add: init_eq zip_map_fst_snd)

lemma py_index_cases:
  "py_index xs k = Inl IndexError \<or>
   (\<exists>m<length xs. py_index xs k = Inr (xs ! m) \<and>
      m = nat (if k < 0 then k + int (length xs) else k))"
  by (auto simp: py_index_def Let_def)

lemma py_index_same:
  assumes "length ys = length xs" and "py_index xs k = Inr (xs ! m)"
    and "m = nat (if k < 0 then k + int (length xs) else k)"
  shows "py_index ys k = Inr (ys ! m)"
  using assms by (auto simp: py_index_def Let_def split: if_splits)

lemma OnSelectNet_Inr:
  assumes "py_index (netnames self) k = Inr nm" and "py_index (nets self) k = Inr n"
  shows "OnSelectNet self k =
     (self\<lparr>analysis_netname := Some nm, analysis_net := Some n,
           pad_config := map new_row (filter (\<lambda>p. GetNetname p = nm) (GetPads (board self))),
           source_row := - 1, start_button_enabled := False,
           analysis_padnames :=
             (if GetPads (board self) = [] then analysis_padnames self
              else Some (map (\<lambda>p. GetReference p @ ''-Pad'' @ GetPadName p)
                     (filter (\<lambda>p. GetNetname p = nm) (GetPads (board self))))),
           analysis_pads :=
             (if GetPads (board self) = [] then analysis_pads self
              else Some (filter (\<lambda>p. GetNetname p = nm) (GetPads (board self))))\<rparr>, None)"
  by (cases "GetPads (board self) = []")
     (simp_all add: OnSelectNet_def assms Let_def select_pads_eq)

lemma OnSelectNet_cases:
  assumes "length (nets self) = length (netnames self)"
  shows "OnSelectNet self k = (self, Some IndexError) \<or>
    (\<exists>m<length (netnames self).
       OnSelectNet self k =
         (self\<lparr>analysis_netname := Some (netnames self ! m), analysis_net := Some (nets self ! m),
           pad_config := map new_row
              (filter (\<lambda>p. GetNetname p = netnames self ! m) (GetPads (board self))),
           source_row := - 1, start_button_enabled := False,
           analysis_padnames :=
             (if GetPads (board self) = [] then analysis_padnames self
              else Some (map (\<lambda>p. GetReference p @ ''-Pad'' @ GetPadName p)
                     (filter (\<lambda>p. GetNetname p = netnames self ! m) (GetPads (board self))))),
           analysis_pads :=
             (if GetPads (board self) = [] then analysis_pads self
              else Some (filter (\<lambda>p. GetNetname p = netnames self ! m)
                     (GetPads (board self))))\<rparr>, None))"
proof -
  from py_index_cases [of "netnames self" k] show ?thesis
  proof
    assume "py_index (netnames self) k = Inl IndexError"
    then show ?thesis by (simp add: OnSelectNet_def)
  next
    assume "\<exists>m<length (netnames self). py_index (netnames self) k = Inr (netnames self ! m) \<and>
      m = nat (if k < 0 then k + int (length (netnames self)) else k)"
    then obtain m where m: "m < length (netnames self)"
      and a: "py_index (netnames self) k = Inr (netnames self ! m)"
      and mk: "m = nat (if k < 0 then k + int (length (netnames self)) else k)" by blast
    from py_index_same [OF assms a mk] have b: "py_index (nets self) k = Inr (nets self ! m)" .
    from OnSelectNet_Inr [OF a b] m show ?thesis by blast
  qed
qed

lemma window_invariant_init: "window_invariant b (init b)"
  by (simp add: window_invariant_def source_invariant_def init_eq)

lemma window_invariant_select:
  assumes "window_invariant b self"
  shows "window_invariant b (fst (OnSelectNet self k))"
proof -
  from assms have len: "length (nets self) = length (netnames self)"
    by (simp add: window_invariant_def init_net_lists(1))
  from OnSelectNet_cases [OF len, of k] show ?thesis
  proof
    assume "OnSelectNet self k = (self, Some IndexError)"
    then show ?thesis using assms by simp
  next
    assume "\<exists>m<length (netnames self).
       OnSelectNet self k =
         (self\<lparr>analysis_netname := Some (netnames self ! m), analysis_net := Some (nets self ! m),
           pad_config := map new_row
              (filter (\<lambda>p. GetNetname p = netnames self ! m) (GetPads (board self))),
           source_row := - 1, start_button_enabled := False,
           analysis_padnames :=
             (if GetPads (board self) = [] then analysis_padnames self
              else Some (map (\<lambda>p. GetReference p @ ''-Pad'' @ GetPadName p)
                     (filter (\<lambda>p. GetNetname p = netnames self ! m) (GetPads (board self))))),
           analysis_pads :=
             (if GetPads (board self) = [] then analysis_pads self
              else Some (filter (\<lambda>p. GetNetname p = netnames self ! m)
                     (GetPads (board self))))\<rparr>, None)"
    then obtain m where eq: "OnSelectNet self k =
         (self\<lparr>analysis_netname := Some (netnames self ! m), analysis_net := Some (nets self ! m),
           pad_config := map new_row
              (filter (\<lambda>p. GetNetname p = netnames self ! m) (GetPads (board self))),
           source_row := - 1, start_button_enabled := False,
           analysis_padnames :=
             (if GetPads (board self) = [] then analysis_padnames self
              else Some (map (\<lambda>p. GetReference p @ ''-Pad'' @ GetPadName p)
                     (filter (\<lambda>p. GetNetname p = netnames self ! m) (GetPads (board self))))),
           analysis_pads :=
             (if GetPads (board self) = [] then analysis_pads self
              else Some (filter (\<lambda>p. GetNetname p = netnames self ! m)
                     (GetPads (board self))))\<rparr>, None)" by blast
    show ?thesis
      unfolding eq using assms
      by (cases "GetPads (board self) = []")
         (simp_all add: window_invariant_def source_invariant_def new_row_def)
  qed
qed

lemma window_invariant_toggle:
  assumes "window_invariant b self" and "r < length (pad_config self)"
  shows "window_invariant b (toggle_source r self)"
proof -
  from assms(1) have si: "source_invariant self" by (simp add: window_invariant_def)
  have inv: "source_invariant (toggle_source r self)"
    by (rule source_invariant_toggle [OF si assms(2)])
  consider "source_row self = int r" | "source_row self = - 1"
    | "source_row self \<noteq> int r" "source_row self \<noteq> - 1" by blast
  then have rest: "board (toggle_source r self) = board self \<and>
     netnames (toggle_source r self) = netnames self \<and>
     nets (toggle_source r self) = nets self \<and>
     analysis_pads (toggle_source r self) = analysis_pads self \<and>
     analysis_padnames (toggle_source r self) = analysis_padnames self \<and>
     analysis_net (toggle_source r self) = analysis_net self \<and>
     analysis_netname (toggle_source r self) = analysis_netname self \<and>
     length (pad_config (toggle_source r self)) = length (pad_config self)"
  proof cases
    case 1
    show ?thesis unfolding toggle_source_same [OF si assms(2) 1] by simp
  next
    case 2
    show ?thesis unfolding toggle_source_first [OF si assms(2) 2] by simp
  next
    case 3
    show ?thesis unfolding toggle_source_other [OF si assms(2) 3] by simp
  qed
  from assms(2) have ne: "pad_config self \<noteq> []" by auto
  show ?thesis
    using assms(1) inv rest ne by (auto simp: window_invariant_def)
qed

lemma window_invariant_edit:
  assumes "window_invariant b self"
  shows "window_invariant b (edit_current_draw r txt self)"
proof -
  from assms have "source_invariant self" by (simp add: window_invariant_def)
  then have "source_invariant (edit_current_draw r txt self)" by (rule source_invariant_edit)
  then show ?thesis
    using assms by (auto simp: window_invariant_def edit_current_draw_eq)
qed

lemma window_invariant_handle:
  "window_invariant b self \<Longrightarrow> window_invariant b (handle ev self)"
  by (cases ev)
     (simp_all add: window_invariant_select window_invariant_toggle window_invariant_edit)

lemma window_invariant_run:
  "window_invariant b self \<Longrightarrow> window_invariant b (run_events evs self)"
  unfolding run_events_def
  by (induction evs arbitrary: self) (simp_all add: window_invariant_handle)

lemma window_invariant_reachable: "window_invariant b (run_events evs (init b))"
  by (rule window_invariant_run [OF window_invariant_init])

lemma run_analysis_netlist:
  assumes "run_analysis ng_run self = Inr a"
  shows "create_netlist (pad_config self) (source_row self) (analysis_padnames self)
           (analysis_nodes a) = Inr (analysis_netlist a)"
  using assms by (auto simp: run_analysis_def split: option.splits sum.splits)

section \<open>The grid of voltages: what the loops return\<close>


lemma create_voltages_Inr:
  assumes "create_voltages data nodes = Inr vs"
  shows "length vs = length nodes"
    and "i < length nodes \<Longrightarrow> length (vs ! i) = length (nodes ! 0)"
    and "i < length nodes \<Longrightarrow> j < length (nodes ! 0) \<Longrightarrow>
           cell_voltage data nodes i j = Inr (vs ! i ! j)"
proof -
  note D = for_enum_InrD [OF assms [unfolded create_voltages_def]]
  from D show len: "length vs = length nodes" by simp
  have row: "for_enum (\<lambda>_ j. cell_voltage data nodes i j) 0 [0..<length (nodes ! 0)] = Inr (vs ! i)"
    if "i < length nodes" for i
    using D that by simp
  show "length (vs ! i) = length (nodes ! 0)" if "i < length nodes"
    using for_enum_InrD [OF row [OF that]] by simp
  show "cell_voltage data nodes i j = Inr (vs ! i ! j)"
    if "i < length nodes" and "j < length (nodes ! 0)"
    using for_enum_InrD [OF row [OF that(1)]] that(2) by simp
qed



lemma cell_voltage_off_net:
  "nodes ! i ! j = '''' \<Longrightarrow> cell_voltage data nodes i j = Inr analysis_source_voltage"
  by (simp add: cell_voltage_def)



section \<open>The analysis attributes after any sequence of events\<close>

lemma net_pair_in_map:
  assumes "m < length (netnames (init b))"
  shows "netnames (init b) ! m \<noteq> ''''"
    and "(netnames (init b) ! m, nets (init b) ! m) \<in> set (GetNetsByName b)"
proof -
  let ?items = "filter (\<lambda>(name, n). name \<noteq> '''') (GetNetsByName b)"
  from assms init_net_lists(1) [of b]
  have "(netnames (init b) ! m, nets (init b) ! m) \<in> set (zip (netnames (init b)) (nets (init b)))"
    unfolding in_set_zip by auto
  then have "(netnames (init b) ! m, nets (init b) ! m) \<in> set ?items"
    unfolding init_net_lists(2) .
  then show "netnames (init b) ! m \<noteq> ''''"
    and "(netnames (init b) ! m, nets (init b) ! m) \<in> set (GetNetsByName b)" by auto
qed

lemma map_pad_name_update:
  "k < length cfg \<Longrightarrow> pad_name y = pad_name (cfg ! k) \<Longrightarrow>
     map pad_name (cfg[k := y]) = map pad_name cfg"
  by (simp add: map_update list_update_same_conv)

lemma pad_names_toggle:
  assumes "source_invariant self" and "r < length (pad_config self)"
  shows "map pad_name (pad_config (toggle_source r self)) = map pad_name (pad_config self)"
proof -
  consider "source_row self = int r" | "source_row self = - 1"
    | "source_row self \<noteq> int r" "source_row self \<noteq> - 1" by blast
  then show ?thesis
  proof cases
    case 1
    show ?thesis unfolding toggle_source_same [OF assms 1]
      using assms(2) by (simp add: map_pad_name_update)
  next
    case 2
    show ?thesis unfolding toggle_source_first [OF assms 2]
      using assms(2) by (simp add: map_pad_name_update)
  next
    case 3
    from assms 3 have range: "0 \<le> source_row self"
      "source_row self < int (length (pad_config self))"
      by (simp_all add: source_invariant_def)
    from 3 range have ne: "nat (source_row self) \<noteq> r" by auto
    from range have k: "nat (source_row self) < length (pad_config self)" by simp
    show ?thesis unfolding toggle_source_other [OF assms 3]
      using assms(2) k ne by (simp add: map_pad_name_update)
  qed
qed

lemma toggle_source_frame:
  assumes "source_invariant self" and "r < length (pad_config self)"
  shows "analysis_pads (toggle_source r self) = analysis_pads self"
    and "analysis_padnames (toggle_source r self) = analysis_padnames self"
    and "analysis_net (toggle_source r self) = analysis_net self"
    and "analysis_netname (toggle_source r self) = analysis_netname self"
proof -
  consider "source_row self = int r" | "source_row self = - 1"
    | "source_row self \<noteq> int r" "source_row self \<noteq> - 1" by blast
  then have "analysis_pads (toggle_source r self) = analysis_pads self \<and>
     analysis_padnames (toggle_source r self) = analysis_padnames self \<and>
     analysis_net (toggle_source r self) = analysis_net self \<and>
     analysis_netname (toggle_source r self) = analysis_netname self"
  proof cases
    case 1
    show ?thesis unfolding toggle_source_same [OF assms 1] by simp
  next
    case 2
    show ?thesis unfolding toggle_source_first [OF assms 2] by simp
  next
    case 3
    show ?thesis unfolding toggle_source_other [OF assms 3] by simp
  qed
  then show "analysis_pads (toggle_source r self) = analysis_pads self"
    and "analysis_padnames (toggle_source r self) = analysis_padnames self"
    and "analysis_net (toggle_source r self) = analysis_net self"
    and "analysis_netname (toggle_source r self) = analysis_netname self" by simp_all
qed

lemma analysis_invariant_init: "analysis_invariant b (init b)"
  by (simp add: analysis_invariant_def init_eq)

lemma analysis_invariant_select:
  assumes "window_invariant b self" and "analysis_invariant b self"
  shows "analysis_invariant b (fst (OnSelectNet self k))"
proof -
  from assms(1) have len: "length (nets self) = length (netnames self)"
    and b: "board self = b" and nn: "netnames self = netnames (init b)"
    and ns: "nets self = nets (init b)"
    by (simp_all add: window_invariant_def init_net_lists(1))
  from OnSelectNet_cases [OF len, of k] show ?thesis
  proof
    assume "OnSelectNet self k = (self, Some IndexError)"
    then show ?thesis using assms(2) by simp
  next
    assume "\<exists>m<length (netnames self).
       OnSelectNet self k =
         (self\<lparr>analysis_netname := Some (netnames self ! m), analysis_net := Some (nets self ! m),
           pad_config := map new_row
              (filter (\<lambda>p. GetNetname p = netnames self ! m) (GetPads (board self))),
           source_row := - 1, start_button_enabled := False,
           analysis_padnames :=
             (if GetPads (board self) = [] then analysis_padnames self
              else Some (map (\<lambda>p. GetReference p @ ''-Pad'' @ GetPadName p)
                     (filter (\<lambda>p. GetNetname p = netnames self ! m) (GetPads (board self))))),
           analysis_pads :=
             (if GetPads (board self) = [] then analysis_pads self
              else Some (filter (\<lambda>p. GetNetname p = netnames self ! m)
                     (GetPads (board self))))\<rparr>, None)"
    then obtain m where m: "m < length (netnames self)" and eq: "OnSelectNet self k =
         (self\<lparr>analysis_netname := Some (netnames self ! m), analysis_net := Some (nets self ! m),
           pad_config := map new_row
              (filter (\<lambda>p. GetNetname p = netnames self ! m) (GetPads (board self))),
           source_row := - 1, start_button_enabled := False,
           analysis_padnames :=
             (if GetPads (board self) = [] then analysis_padnames self
              else Some (map (\<lambda>p. GetReference p @ ''-Pad'' @ GetPadName p)
                     (filter (\<lambda>p. GetNetname p = netnames self ! m) (GetPads (board self))))),
           analysis_pads :=
             (if GetPads (board self) = [] then analysis_pads self
              else Some (filter (\<lambda>p. GetNetname p = netnames self ! m)
                     (GetPads (board self))))\<rparr>, None)" by blast
    from m nn have "m < length (netnames (init b))" by simp
    from net_pair_in_map(2) [OF this] nn ns
    have pair: "(netnames self ! m, nets self ! m) \<in> set (GetNetsByName b)" by simp
    have names: "map pad_name (map new_row ps) =
                   map (\<lambda>p. GetReference p @ ''-Pad'' @ GetPadName p) ps" for ps
      by (simp add: new_row_def)
    show ?thesis
    proof (cases "GetPads b = []")
      case True
      then show ?thesis unfolding eq by (simp add: analysis_invariant_def b)
    next
      case False
      then show ?thesis unfolding eq analysis_invariant_def
        using pair by (simp add: b new_row_def)
    qed
  qed
qed

lemma analysis_invariant_toggle:
  assumes "window_invariant b self" and "analysis_invariant b self"
    and "r < length (pad_config self)"
  shows "analysis_invariant b (toggle_source r self)"
proof -
  from assms(1) have si: "source_invariant self" by (simp add: window_invariant_def)
  from assms(3) have "pad_config self \<noteq> []" by auto
  then show ?thesis
    using assms(2)
    by (auto simp: analysis_invariant_def pad_names_toggle [OF si assms(3)]
        toggle_source_frame [OF si assms(3)])
qed

lemma analysis_invariant_edit:
  assumes "analysis_invariant b self" and "r < length (pad_config self)"
  shows "analysis_invariant b (edit_current_draw r txt self)"
proof -
  from assms(2) have "pad_config self \<noteq> []" by auto
  then show ?thesis
    using assms by (auto simp: analysis_invariant_def edit_current_draw_eq map_pad_name_update)
qed

lemma invariants_handle:
  assumes "window_invariant b self \<and> analysis_invariant b self"
  shows "window_invariant b (handle ev self) \<and> analysis_invariant b (handle ev self)"
  using assms
  by (cases ev)
     (simp_all add: window_invariant_handle [where ev = "SelectNet _", simplified]
        window_invariant_toggle window_invariant_edit
        analysis_invariant_select analysis_invariant_toggle analysis_invariant_edit)

lemma invariants_run:
  "window_invariant b self \<and> analysis_invariant b self \<Longrightarrow>
     window_invariant b (run_events evs self) \<and> analysis_invariant b (run_events evs self)"
  unfolding run_events_def
proof (induction evs arbitrary: self)
  case Nil
  then show ?case by simp
next
  case (Cons ev evs)
  from invariants_handle [OF Cons.prems] have
    "window_invariant b (handle ev self) \<and> analysis_invariant b (handle ev self)" .
  from Cons.IH [OF this] show ?case by simp
qed

lemma analysis_invariant_reachable: "analysis_invariant b (run_events evs (init b))"
  using invariants_run [of b "init b" evs] window_invariant_init analysis_invariant_init
  by blast

lemma run_analysis_nodes:
  assumes "run_analysis ng_run self = Inr a"
  shows "\<exists>n. analysis_net self = Some n \<and>
           create_nodes (pad_config self) (analysis_pads self)
             (TracksInNet (board self) (GetNet n)) (GetBoardEdgesBoundingBox (board self)) =
           Inr (analysis_nodes a)"
  using assms by (auto simp: run_analysis_def split: option.splits sum.splits)

lemma source_row_selected:
  assumes "window_invariant b self" and "analysis_invariant b self" and "source_row self \<noteq> - 1"
  shows "\<exists>nm n.
     analysis_netname self = Some nm \<and> analysis_net self = Some n \<and>
     (nm, n) \<in> set (GetNetsByName b) \<and>
     analysis_pads self = Some (filter (\<lambda>p. GetNetname p = nm) (GetPads b)) \<and>
     analysis_padnames self = Some (map pad_name (pad_config self)) \<and>
     length (filter (\<lambda>p. GetNetname p = nm) (GetPads b)) = length (pad_config self)"
proof -
  from assms(1,3) have "0 \<le> source_row self" "source_row self < int (length (pad_config self))"
    by (simp_all add: window_invariant_def source_invariant_def)
  then have "pad_config self \<noteq> []" by auto
  with assms(2) obtain nm n where
    a: "analysis_netname self = Some nm" "analysis_net self = Some n"
       "(nm, n) \<in> set (GetNetsByName b)"
       "analysis_pads self = Some (filter (\<lambda>p. GetNetname p = nm) (GetPads b))"
       "analysis_padnames self = Some (map pad_name (pad_config self))"
    and names: "map pad_name (pad_config self) =
          map (\<lambda>p. GetReference p @ ''-Pad'' @ GetPadName p)
            (filter (\<lambda>p. GetNetname p = nm) (GetPads b))"
    by (auto simp: analysis_invariant_def)
  from names have "length (map pad_name (pad_config self)) =
          length (map (\<lambda>p. GetReference p @ ''-Pad'' @ GetPadName p)
            (filter (\<lambda>p. GetNetname p = nm) (GetPads b)))" by (rule arg_cong)
  then have "length (filter (\<lambda>p. GetNetname p = nm) (GetPads b)) = length (pad_config self)"
    by simp
  with a show ?thesis by blast
qed

section \<open>The resistor lines\<close>

text \<open>
  Claim C1, amended. The resistor loop visits the nodes that are not on the first or
  last grid row or column. For every such node that is on the net, the netlist holds a
  resistor line of value 0.0005 from the node's name to the name of each of its four
  orthogonal neighbours that is on the net, and every resistor line is one of these.
\<close>

theorem interior_four_neighbour_stencil:
  "\<exists>rs. connect_nodes nodes ([''analysis''], 1) = (''analysis'' # rs, 1 + length rs) \<and>
     (\<forall>i j b. 1 \<le> i \<and> i + 1 < length nodes \<and> 1 \<le> j \<and> j + 1 < length (nodes ! 0) \<and>
        nodes ! i ! j \<noteq> '''' \<and> b \<noteq> '''' \<and>
        b \<in> {nodes ! (i + 1) ! j, nodes ! i ! (j + 1), nodes ! (i - 1) ! j, nodes ! i ! (j - 1)}
        \<longrightarrow> (\<exists>n. ''R'' @ str_nat n @ '' '' @ nodes ! i ! j @ '' '' @ b @ '' 0.0005'' \<in> set rs)) \<and>
     (\<forall>l\<in>set rs. \<exists>n i j b.
        1 \<le> i \<and> i + 1 < length nodes \<and> 1 \<le> j \<and> j + 1 < length (nodes ! 0) \<and>
        nodes ! i ! j \<noteq> '''' \<and> b \<noteq> '''' \<and>
        b \<in> {nodes ! (i + 1) ! j, nodes ! i ! (j + 1), nodes ! (i - 1) ! j, nodes ! i ! (j - 1)} \<and>
        l = ''R'' @ str_nat n @ '' '' @ nodes ! i ! j @ '' '' @ b @ '' 0.0005'')"
proof -
  let ?rs = "numbered 1 (stencil_links nodes)"
  have run: "connect_nodes nodes ([''analysis''], 1) = (''analysis'' # ?rs, 1 + length ?rs)"
    by (simp add: connect_nodes_links length_numbered)
  have there: "\<exists>n. ''R'' @ str_nat n @ '' '' @ nodes ! i ! j @ '' '' @ b @ '' 0.0005'' \<in> set ?rs"
    if "1 \<le> i \<and> i + 1 < length nodes \<and> 1 \<le> j \<and> j + 1 < length (nodes ! 0) \<and>
        nodes ! i ! j \<noteq> '''' \<and> b \<noteq> '''' \<and>
        b \<in> {nodes ! (i + 1) ! j, nodes ! i ! (j + 1), nodes ! (i - 1) ! j, nodes ! i ! (j - 1)}"
    for i j b
  proof -
    from that have "(nodes ! i ! j, b) \<in> set (node_links nodes i j)"
      by (simp add: node_links_mem)
    with that have "(nodes ! i ! j, b) \<in> set (stencil_links nodes)"
      unfolding stencil_links_mem by blast
    from numbered_mem [OF this, of 1] show ?thesis by (simp only: resistor_line_text)
  qed
  have only: "\<exists>n i j b.
        1 \<le> i \<and> i + 1 < length nodes \<and> 1 \<le> j \<and> j + 1 < length (nodes ! 0) \<and>
        nodes ! i ! j \<noteq> '''' \<and> b \<noteq> '''' \<and>
        b \<in> {nodes ! (i + 1) ! j, nodes ! i ! (j + 1), nodes ! (i - 1) ! j, nodes ! i ! (j - 1)} \<and>
        l = ''R'' @ str_nat n @ '' '' @ nodes ! i ! j @ '' '' @ b @ '' 0.0005''"
    if "l \<in> set ?rs" for l
  proof -
    from numbered_memD [OF that] obtain m a b where
      ab: "(a, b) \<in> set (stencil_links nodes)" and l: "l = resistor_line m a b" by blast
    from ab obtain i j where ij: "1 \<le> i" "i + 1 < length nodes" "1 \<le> j"
      "j + 1 < length (nodes ! 0)" and nl: "(a, b) \<in> set (node_links nodes i j)"
      unfolding stencil_links_mem by blast
    from nl have "a = nodes ! i ! j \<and> a \<noteq> '''' \<and> b \<noteq> '''' \<and>
      b \<in> {nodes ! (i + 1) ! j, nodes ! i ! (j + 1), nodes ! (i - 1) ! j, nodes ! i ! (j - 1)}"
      using node_links_mem [of a b nodes i j] by blast
    with ij l show ?thesis unfolding resistor_line_text by blast
  qed
  from run there only show ?thesis by blast
qed

theorem interior_four_neighbour_stencil_witness:
  "(1::nat) \<le> 1 \<and> (1::nat) + 1 < length demo_nodes \<and> (1::nat) + 1 < length (demo_nodes ! 0) \<and>
   demo_nodes ! 1 ! 1 = ''J1-Pad1'' \<and> demo_nodes ! (1 + 1) ! 1 = ''U1-Pad8'' \<and>
   (\<exists>n. ''R'' @ str_nat n @ '' J1-Pad1 U1-Pad8 0.0005'' \<in>
          set [''R1 J1-Pad1 U1-Pad8 0.0005'', ''R2 J1-Pad1 n0x1 0.0005'',
               ''R3 J1-Pad1 n1x0 0.0005''])"
proof -
  from interior_four_neighbour_stencil [of demo_nodes] obtain rs where
    run: "connect_nodes demo_nodes ([''analysis''], 1) = (''analysis'' # rs, 1 + length rs)"
    and there: "\<And>i j b. 1 \<le> i \<and> i + 1 < length demo_nodes \<and> 1 \<le> j \<and>
        j + 1 < length (demo_nodes ! 0) \<and> demo_nodes ! i ! j \<noteq> '''' \<and> b \<noteq> '''' \<and>
        b \<in> {demo_nodes ! (i + 1) ! j, demo_nodes ! i ! (j + 1), demo_nodes ! (i - 1) ! j,
             demo_nodes ! i ! (j - 1)}
        \<Longrightarrow> \<exists>n. ''R'' @ str_nat n @ '' '' @ demo_nodes ! i ! j @ '' '' @ b @ '' 0.0005'' \<in> set rs"
    by blast
  from run have rs: "rs = [''R1 J1-Pad1 U1-Pad8 0.0005'', ''R2 J1-Pad1 n0x1 0.0005'',
       ''R3 J1-Pad1 n1x0 0.0005'']"
    by (simp add: demo_connect_eval)
  have facts: "(1::nat) + 1 < length demo_nodes" "(1::nat) + 1 < length (demo_nodes ! 0)"
    "demo_nodes ! 1 ! 1 = ''J1-Pad1''" "demo_nodes ! (1 + 1) ! 1 = ''U1-Pad8''"
    by (simp_all add: demo_nodes_def)
  have "\<exists>n. ''R'' @ str_nat n @ '' '' @ demo_nodes ! 1 ! 1 @ '' '' @ ''U1-Pad8'' @ '' 0.0005'' \<in> set rs"
    by (rule there) (simp add: demo_nodes_def)
  then have "\<exists>n. ''R'' @ str_nat n @ '' J1-Pad1 U1-Pad8 0.0005'' \<in> set rs"
    by (simp add: demo_nodes_def)
  then show ?thesis using facts rs by simp
qed

text \<open>
  For the nodes on the first and last rows and columns the same does not hold: on the
  example board the node \<open>n0x0\<close> and its right neighbour \<open>n1x0\<close> are both on the net,
  and no resistor line connects them or starts at either.
\<close>

theorem border_nodes_unconnected_counterexample:
  "create_nodes demo_cfg (Some demo_analysis_pads) demo_tracks demo_box = Inr demo_nodes \<and>
   demo_nodes ! 0 ! 0 = ''n0x0'' \<and> demo_nodes ! 1 ! 0 = ''n1x0'' \<and>
   connect_nodes demo_nodes ([''analysis''], 1) =
     ([''analysis'', ''R1 J1-Pad1 U1-Pad8 0.0005'', ''R2 J1-Pad1 n0x1 0.0005'',
       ''R3 J1-Pad1 n1x0 0.0005''], 4)"
  by (simp add: demo_nodes_eval demo_connect_eval) (simp add: demo_nodes_def)

section \<open>Classification of the grid points\<close>

text \<open>
  Claim C2. In every window in which a source row is remembered, so that the start
  button runs the analysis, the grid of nodes is created, and it is the grid of every
  analysis that completes. The pads it is created from are the pads of the board whose
  net name is the selected name, the tracks are the tracks of the selected net. Every
  entry of the grid is the classification of its grid point: the point is on the net
  exactly if it hits one of these pads or one of these tracks. The hit tests run on the
  pads first, in order, up to the first pad that hits; the tracks are tested only when
  no pad hit, again up to the first hit. A point that hits neither is recorded as the
  empty name.
\<close>

theorem classification_by_hit_tests:
  assumes "source_row (run_events evs (init b)) \<noteq> - 1"
  shows "\<exists>nm n nodes.
     analysis_netname (run_events evs (init b)) = Some nm \<and>
     analysis_net (run_events evs (init b)) = Some n \<and>
     (nm, n) \<in> set (GetNetsByName b) \<and>
     analysis_pads (run_events evs (init b)) = Some (filter (\<lambda>p. GetNetname p = nm) (GetPads b)) \<and>
     create_nodes (pad_config (run_events evs (init b))) (analysis_pads (run_events evs (init b)))
       (TracksInNet b (GetNet n)) (GetBoardEdgesBoundingBox b) = Inr nodes \<and>
     (\<forall>ng_run a. run_analysis ng_run (run_events evs (init b)) = Inr a \<longrightarrow>
        analysis_nodes a = nodes) \<and>
     (\<forall>i j. i < length nodes \<and> j < length (nodes ! i) \<longrightarrow>
        (\<exists>c. test_node (pad_config (run_events evs (init b)))
                (analysis_pads (run_events evs (init b))) (TracksInNet b (GetNet n))
                (grid_point (GetBoardEdgesBoundingBox b) i j) i j = Inr c \<and>
           nodes ! i ! j = node_entry c \<and>
           (node_on_net c \<longleftrightarrow>
              (\<exists>p\<in>set (GetPads b).
                 GetNetname p = nm \<and> HitTest p (grid_point (GetBoardEdgesBoundingBox b) i j)) \<or>
              (\<exists>t\<in>set (TracksInNet b (GetNet n)).
                 TrackHitTest t (grid_point (GetBoardEdgesBoundingBox b) i j))) \<and>
           probes c =
             map PadProbe
               [0..<tested (\<lambda>p. HitTest p (grid_point (GetBoardEdgesBoundingBox b) i j))
                      (filter (\<lambda>p. GetNetname p = nm) (GetPads b))] @
             (if \<exists>p\<in>set (GetPads b).
                   GetNetname p = nm \<and> HitTest p (grid_point (GetBoardEdgesBoundingBox b) i j)
              then []
              else map TrackProbe
                     [0..<tested (\<lambda>t. TrackHitTest t (grid_point (GetBoardEdgesBoundingBox b) i j))
                            (TracksInNet b (GetNet n))]) \<and>
           (\<not> node_on_net c \<longrightarrow> nodes ! i ! j = '''')))"
proof -
  let ?s = "run_events evs (init b)"
  let ?bb = "GetBoardEdgesBoundingBox b"
  note wi = window_invariant_reachable [of b evs]
  then have bs: "board ?s = b" by (simp add: window_invariant_def)
  from source_row_selected [OF wi analysis_invariant_reachable assms] obtain nm n where
    nm: "analysis_netname ?s = Some nm" and n: "analysis_net ?s = Some n"
    and pair: "(nm, n) \<in> set (GetNetsByName b)"
    and aps: "analysis_pads ?s = Some (filter (\<lambda>p. GetNetname p = nm) (GetPads b))"
    and len: "length (filter (\<lambda>p. GetNetname p = nm) (GetPads b)) = length (pad_config ?s)"
    by blast
  let ?pads = "filter (\<lambda>p. GetNetname p = nm) (GetPads b)"
  let ?tracks = "TracksInNet b (GetNet n)"
  from len have "length ?pads \<le> length (pad_config ?s)" by simp
  from create_nodes_total [OF this, of ?tracks ?bb] obtain nodes where
    nodes: "create_nodes (pad_config ?s) (Some ?pads) ?tracks ?bb = Inr nodes" by blast
  have same: "analysis_nodes a = nodes" if "run_analysis ng_run ?s = Inr a" for ng_run a
    using run_analysis_nodes [OF that] n nodes aps bs by simp
  have cls: "\<exists>c. test_node (pad_config ?s) (Some ?pads) ?tracks (grid_point ?bb i j) i j = Inr c \<and>
           nodes ! i ! j = node_entry c \<and>
           (node_on_net c \<longleftrightarrow>
              (\<exists>p\<in>set (GetPads b). GetNetname p = nm \<and> HitTest p (grid_point ?bb i j)) \<or>
              (\<exists>t\<in>set ?tracks. TrackHitTest t (grid_point ?bb i j))) \<and>
           probes c =
             map PadProbe [0..<tested (\<lambda>p. HitTest p (grid_point ?bb i j)) ?pads] @
             (if \<exists>p\<in>set (GetPads b). GetNetname p = nm \<and> HitTest p (grid_point ?bb i j)
              then []
              else map TrackProbe [0..<tested (\<lambda>t. TrackHitTest t (grid_point ?bb i j)) ?tracks]) \<and>
           (\<not> node_on_net c \<longrightarrow> nodes ! i ! j = '''')"
    if "i < length nodes \<and> j < length (nodes ! i)" for i j
  proof -
    from that have i: "i < length nodes" and j: "j < length (nodes ! i)" by simp_all
    from create_nodes_Inr(3) [OF nodes i j] obtain c where
      c: "test_node (pad_config ?s) (Some ?pads) ?tracks (grid_point ?bb i j) i j = Inr c"
      and e: "nodes ! i ! j = node_entry c" by blast
    have hit: "(\<exists>p\<in>set ?pads. HitTest p (grid_point ?bb i j)) \<longleftrightarrow>
       (\<exists>p\<in>set (GetPads b). GetNetname p = nm \<and> HitTest p (grid_point ?bb i j))" by auto
    from test_node_Inr(1,2) [OF c] c e show ?thesis
      unfolding hit by (auto simp: node_entry_def)
  qed
  from nm n pair aps nodes same cls show ?thesis unfolding aps by blast
qed

theorem classification_by_hit_tests_witness:
  "source_row (run_events demo_events (init demo_board)) \<noteq> - 1 \<and>
   analysis_netname (run_events demo_events (init demo_board)) = Some ''VCC'' \<and>
   analysis_net (run_events demo_events (init demo_board)) = Some \<lparr>GetNet = 2\<rparr> \<and>
   create_nodes (pad_config (run_events demo_events (init demo_board)))
     (analysis_pads (run_events demo_events (init demo_board)))
     (TracksInNet demo_board 2) (GetBoardEdgesBoundingBox demo_board) = Inr demo_nodes \<and>
   grid_point (GetBoardEdgesBoundingBox demo_board) 0 2 = (1000, 202000) \<and>
   (\<exists>c. test_node (pad_config (run_events demo_events (init demo_board)))
          (analysis_pads (run_events demo_events (init demo_board)))
          (TracksInNet demo_board 2) (1000, 202000) 0 2 = Inr c \<and>
        \<not> node_on_net c \<and> probes c = [PadProbe 0, PadProbe 1, TrackProbe 0]) \<and>
   demo_nodes ! 0 ! 2 = ''''"
proof -
  have g: "run_events demo_events (init demo_board) = demo_gui" by (simp add: demo_gui_def)
  have h: "source_row (run_events demo_events (init demo_board)) \<noteq> - 1"
    by (simp add: g demo_gui_eval)
  have f: "analysis_netname demo_gui = Some ''VCC''" "analysis_net demo_gui = Some \<lparr>GetNet = 2\<rparr>"
    "pad_config demo_gui = demo_cfg" "analysis_pads demo_gui = Some demo_analysis_pads"
    "TracksInNet demo_board 2 = demo_tracks" "GetBoardEdgesBoundingBox demo_board = demo_box"
    by (simp_all add: demo_gui_eval demo_board_def)
  have pt: "grid_point demo_box 0 2 = (1000, 202000)"
    by (simp add: grid_point_def demo_box_def analysis_grid_spacing_def)
  have i: "(0::nat) < length demo_nodes \<and> (2::nat) < length (demo_nodes ! 0)"
    and e: "demo_nodes ! 0 ! 2 = ''''"
    by (simp_all add: demo_nodes_def)
  have t: "tested (\<lambda>p. HitTest p (1000, 202000)) (filter (\<lambda>p. GetNetname p = ''VCC'') (GetPads demo_board)) = 2"
    "tested (\<lambda>t. TrackHitTest t (1000, 202000)) demo_tracks = 1"
    "\<not> (\<exists>p\<in>set (GetPads demo_board). GetNetname p = ''VCC'' \<and> HitTest p (1000, 202000))"
    "\<not> (\<exists>t\<in>set demo_tracks. TrackHitTest t (1000, 202000))"
    by (simp_all add: tested_def demo_board_def demo_pads_def demo_tracks_def)
  have u: "[0..<2] = [0, Suc 0]" "[0..<1] = [0]" by (simp_all add: upt_rec)
  from classification_by_hit_tests [OF h] obtain nm n nodes where
    nm: "analysis_netname demo_gui = Some nm" and n: "analysis_net demo_gui = Some n"
    and nodes: "create_nodes (pad_config demo_gui) (analysis_pads demo_gui)
       (TracksInNet demo_board (GetNet n)) (GetBoardEdgesBoundingBox demo_board) = Inr nodes"
    and cls: "\<And>i j. i < length nodes \<and> j < length (nodes ! i) \<Longrightarrow>
        (\<exists>c. test_node (pad_config demo_gui) (analysis_pads demo_gui)
                (TracksInNet demo_board (GetNet n))
                (grid_point (GetBoardEdgesBoundingBox demo_board) i j) i j = Inr c \<and>
           nodes ! i ! j = node_entry c \<and>
           (node_on_net c \<longleftrightarrow>
              (\<exists>p\<in>set (GetPads demo_board).
                 GetNetname p = nm \<and> HitTest p (grid_point (GetBoardEdgesBoundingBox demo_board) i j)) \<or>
              (\<exists>t\<in>set (TracksInNet demo_board (GetNet n)).
                 TrackHitTest t (grid_point (GetBoardEdgesBoundingBox demo_board) i j))) \<and>
           probes c =
             map PadProbe
               [0..<tested (\<lambda>p. HitTest p (grid_point (GetBoardEdgesBoundingBox demo_board) i j))
                      (filter (\<lambda>p. GetNetname p = nm) (GetPads demo_board))] @
             (if \<exists>p\<in>set (GetPads demo_board).
                   GetNetname p = nm \<and> HitTest p (grid_point (GetBoardEdgesBoundingBox demo_board) i j)
              then []
              else map TrackProbe
                     [0..<tested (\<lambda>t. TrackHitTest t (grid_point (GetBoardEdgesBoundingBox demo_board) i j))
                            (TracksInNet demo_board (GetNet n))]) \<and>
           (\<not> node_on_net c \<longrightarrow> nodes ! i ! j = ''''))"
    unfolding g by blast
  from nm f(1) have nmv: "nm = ''VCC''" by simp
  from n f(2) have nv: "GetNet n = 2" by auto
  from nodes have nodesv: "nodes = demo_nodes"
    unfolding nv f by (simp add: demo_nodes_eval)
  from cls [of 0 2] i obtain c where
    c: "test_node demo_cfg (Some demo_analysis_pads) demo_tracks (1000, 202000) 0 2 = Inr c"
    and on: "node_on_net c \<longleftrightarrow>
              (\<exists>p\<in>set (GetPads demo_board). GetNetname p = ''VCC'' \<and> HitTest p (1000, 202000)) \<or>
              (\<exists>t\<in>set demo_tracks. TrackHitTest t (1000, 202000))"
    and pr: "probes c =
             map PadProbe
               [0..<tested (\<lambda>p. HitTest p (1000, 202000))
                      (filter (\<lambda>p. GetNetname p = ''VCC'') (GetPads demo_board))] @
             (if \<exists>p\<in>set (GetPads demo_board). GetNetname p = ''VCC'' \<and> HitTest p (1000, 202000)
              then []
              else map TrackProbe [0..<tested (\<lambda>t. TrackHitTest t (1000, 202000)) demo_tracks])"
    unfolding nodesv nmv nv f pt by blast
  from on t have off: "\<not> node_on_net c" by blast
  from pr t have p: "probes c = [PadProbe 0, PadProbe 1, TrackProbe 0]"
    by (simp add: u)
  have ex: "\<exists>c. test_node demo_cfg (Some demo_analysis_pads) demo_tracks (1000, 202000) 0 2 = Inr c \<and>
        \<not> node_on_net c \<and> probes c = [PadProbe 0, PadProbe 1, TrackProbe 0]"
    using c off p by blast
  have cn: "create_nodes demo_cfg (Some demo_analysis_pads) demo_tracks demo_box = Inr demo_nodes"
    by (rule demo_nodes_eval)
  from h have h': "source_row demo_gui \<noteq> - 1" unfolding g .
  show ?thesis
    unfolding g f pt using h' cn ex e by blast
qed

section \<open>The structure of the netlist\<close>

text \<open>
  Claim C3. When the source row is a row of the configuration list and the list has a
  row for every pad name, the netlist is: the title \<^verbatim>\<open>analysis\<close>; the resistor lines,
  the line at position \<open>k\<close> (counted from 0) named \<^verbatim>\<open>R\<close> followed by \<open>k + 1\<close>; the one
  line \<^verbatim>\<open>V1 <name of the source row> 0 3.3\<close>; a line \<^verbatim>\<open>I<i> <name> 0 <current>\<close> for every
  pad index \<open>i\<close> whose current-draw cell differs from \<^verbatim>\<open>"0"\<close>, in the order of the pads;
  \<^verbatim>\<open>.op\<close>; \<^verbatim>\<open>.end\<close>.
\<close>

theorem netlist_structure:
  assumes "0 \<le> row" and "row < int (length cfg)"
    and "length padnames \<le> length cfg"
  shows "\<exists>rs. create_netlist cfg row (Some padnames) nodes =
           Inr (''analysis'' # rs @
                [''V1 '' @ pad_name (cfg ! nat row) @ '' 0 3.3''] @
                map (\<lambda>i. ''I'' @ str_nat i @ '' '' @ pad_name (cfg ! i) @ '' 0 '' @
                          current_draw (cfg ! i))
                  (filter (\<lambda>i. current_draw (cfg ! i) \<noteq> ''0'') [0..<length padnames]) @
                [''.op'', ''.end'']) \<and>
         (\<forall>k<length rs. \<exists>a b.
            rs ! k = ''R'' @ str_nat (k + 1) @ '' '' @ a @ '' '' @ b @ '' 0.0005'')"
proof -
  let ?rs = "numbered 1 (stencil_links nodes)"
  have src: "GetTextValue cfg row 0 = Inr (pad_name (cfg ! nat row))"
    using assms(1,2) by (simp add: GetTextValue_def)
  have "0 + length padnames \<le> length cfg" using assms(3) by simp
  then have cur: "for_enum (current_source cfg) 0 padnames =
       Inr (map (\<lambda>i. if current_draw (cfg ! i) \<noteq> ''0''
                      then [current_source_line i (pad_name (cfg ! i)) (current_draw (cfg ! i))]
                      else [])
              [0..<0 + length padnames])"
    by (rule current_sources_run)
  have res: "connect_nodes nodes ([''analysis''], 1) =
       ([''analysis''] @ ?rs, 1 + length (stencil_links nodes))"
    by (rule connect_nodes_links)
  have run: "create_netlist cfg row (Some padnames) nodes =
           Inr (''analysis'' # ?rs @
                [''V1 '' @ pad_name (cfg ! nat row) @ '' 0 3.3''] @
                map (\<lambda>i. ''I'' @ str_nat i @ '' '' @ pad_name (cfg ! i) @ '' 0 '' @
                          current_draw (cfg ! i))
                  (filter (\<lambda>i. current_draw (cfg ! i) \<noteq> ''0'') [0..<length padnames]) @
                [''.op'', ''.end''])"
    unfolding create_netlist_def res
    by (simp add: src cur concat_map_if voltage_source_line_def format_source_voltage_def
          current_source_line_def)
  have names: "\<exists>a b. ?rs ! k = ''R'' @ str_nat (k + 1) @ '' '' @ a @ '' '' @ b @ '' 0.0005''"
    if "k < length ?rs" for k
  proof -
    from that have "k < length (stencil_links nodes)" by (simp add: length_numbered)
    from numbered_nth [OF this, of 1] show ?thesis
      by (simp only: resistor_line_text add.commute [of 1 k]) blast
  qed
  from run names show ?thesis by blast
qed

theorem netlist_structure_witness:
  "(0::int) \<le> 0 \<and> (0::int) < int (length demo_cfg) \<and>
   length [''J1-Pad1'', ''U1-Pad8''] \<le> length demo_cfg \<and>
   (\<exists>rs. create_netlist demo_cfg 0 (Some [''J1-Pad1'', ''U1-Pad8'']) demo_nodes =
      Inr (''analysis'' # rs @ [''V1 J1-Pad1 0 3.3'', ''I1 U1-Pad8 0 0.5'', ''.op'', ''.end''])) \<and>
   create_netlist demo_cfg 0 (Some [''J1-Pad1'', ''U1-Pad8'']) demo_nodes =
     Inr [''analysis'', ''R1 J1-Pad1 U1-Pad8 0.0005'', ''R2 J1-Pad1 n0x1 0.0005'',
          ''R3 J1-Pad1 n1x0 0.0005'', ''V1 J1-Pad1 0 3.3'', ''I1 U1-Pad8 0 0.5'',
          ''.op'', ''.end'']"
proof -
  have h: "(0::int) \<le> 0" "(0::int) < int (length demo_cfg)"
    "length [''J1-Pad1'', ''U1-Pad8''] \<le> length demo_cfg"
    by (simp_all add: demo_cfg_def)
  have cfg: "pad_name (demo_cfg ! nat 0) = ''J1-Pad1''"
    "map (\<lambda>i. ''I'' @ str_nat i @ '' '' @ pad_name (demo_cfg ! i) @ '' 0 '' @
                          current_draw (demo_cfg ! i))
       (filter (\<lambda>i. current_draw (demo_cfg ! i) \<noteq> ''0'')
          [0..<length [''J1-Pad1'', ''U1-Pad8'']]) = [''I1 U1-Pad8 0 0.5'']"
    by (simp_all add: demo_cfg_def str_nat.simps upt_rec)
  from netlist_structure [OF h, of demo_nodes] obtain rs where
    "create_netlist demo_cfg 0 (Some [''J1-Pad1'', ''U1-Pad8'']) demo_nodes =
           Inr (''analysis'' # rs @
                [''V1 '' @ pad_name (demo_cfg ! nat 0) @ '' 0 3.3''] @
                map (\<lambda>i. ''I'' @ str_nat i @ '' '' @ pad_name (demo_cfg ! i) @ '' 0 '' @
                          current_draw (demo_cfg ! i))
                  (filter (\<lambda>i. current_draw (demo_cfg ! i) \<noteq> ''0'')
                     [0..<length [''J1-Pad1'', ''U1-Pad8'']]) @
                [''.op'', ''.end''])"
    by blast
  then have "\<exists>rs. create_netlist demo_cfg 0 (Some [''J1-Pad1'', ''U1-Pad8'']) demo_nodes =
      Inr (''analysis'' # rs @ [''V1 J1-Pad1 0 3.3'', ''I1 U1-Pad8 0 0.5'', ''.op'', ''.end''])"
    unfolding cfg by auto
  moreover have "create_netlist demo_cfg 0 (Some [''J1-Pad1'', ''U1-Pad8'']) demo_nodes =
     Inr [''analysis'', ''R1 J1-Pad1 U1-Pad8 0.0005'', ''R2 J1-Pad1 n0x1 0.0005'',
          ''R3 J1-Pad1 n1x0 0.0005'', ''V1 J1-Pad1 0 3.3'', ''I1 U1-Pad8 0 0.5'',
          ''.op'', ''.end'']"
    by (simp add: demo_netlist_eval demo_netlist_def)
  ultimately show ?thesis using h by blast
qed

section \<open>The uniform grid and the node names\<close>

text \<open>
  Claim C4, amended. When the configuration list has a row for every pad of
  \<^verbatim>\<open>analysis_pads\<close>, the grid is created; its indices \<open>(i, j)\<close> are exactly those whose
  point \<open>(root_x + i * 100000, root_y + j * 100000)\<close> lies inside the bounding rectangle,
  every row has the length of the first, and entry \<open>(i, j)\<close> is the classification of
  that point. The node is named after the first pad, in the order of the pad list, that
  the point hits, if that pad's current-draw cell differs from \<^verbatim>\<open>"0"\<close> or its source
  toggle is set; it keeps the name \<^verbatim>\<open>n{i}x{j}\<close> if that first pad has neither, or if the
  point hits no pad.
\<close>

theorem uniform_grid_first_pad_names:
  assumes "length pads \<le> length cfg"
  shows "\<exists>nodes. create_nodes cfg (Some pads) tracks bb = Inr nodes \<and>
     (\<forall>i j. (i < length nodes \<and> j < length (nodes ! i)) \<longleftrightarrow>
        (GetX bb \<le> fst (grid_point bb i j) \<and>
         fst (grid_point bb i j) < GetX bb + GetWidth bb \<and>
         GetY bb \<le> snd (grid_point bb i j) \<and>
         snd (grid_point bb i j) < GetY bb + GetHeight bb)) \<and>
     (\<forall>i<length nodes. length (nodes ! i) = length (nodes ! 0)) \<and>
     (\<forall>i j. i < length nodes \<and> j < length (nodes ! i) \<longrightarrow>
        (\<exists>c. test_node cfg (Some pads) tracks (grid_point bb i j) i j = Inr c \<and>
           nodes ! i ! j = node_entry c \<and>
           (\<forall>k<length pads.
              HitTest (pads ! k) (grid_point bb i j) \<and>
              (\<forall>m<k. \<not> HitTest (pads ! m) (grid_point bb i j)) \<longrightarrow>
              node_name c =
                (if current_draw (cfg ! k) \<noteq> ''0'' \<or> source (cfg ! k) then pad_name (cfg ! k)
                 else ''n'' @ str_nat i @ ''x'' @ str_nat j)) \<and>
           ((\<forall>p\<in>set pads. \<not> HitTest p (grid_point bb i j)) \<longrightarrow>
              node_name c = ''n'' @ str_nat i @ ''x'' @ str_nat j)))"
proof -
  from create_nodes_total [OF assms] obtain nodes where
    n: "create_nodes cfg (Some pads) tracks bb = Inr nodes" by blast
  note L = create_nodes_Inr [OF n]
  have inside: "(i < length nodes \<and> j < length (nodes ! i)) \<longleftrightarrow>
        (GetX bb \<le> fst (grid_point bb i j) \<and>
         fst (grid_point bb i j) < GetX bb + GetWidth bb \<and>
         GetY bb \<le> snd (grid_point bb i j) \<and>
         snd (grid_point bb i j) < GetY bb + GetHeight bb)" for i j
    unfolding grid_point_inside using L(1) L(2) [of i] by auto
  have rows: "length (nodes ! i) = length (nodes ! 0)" if "i < length nodes" for i
  proof -
    from that have "0 < length nodes" by (cases nodes) simp_all
    then show ?thesis using L(2) [OF that] L(2) [of 0] by simp
  qed
  have names: "\<exists>c. test_node cfg (Some pads) tracks (grid_point bb i j) i j = Inr c \<and>
           nodes ! i ! j = node_entry c \<and>
           (\<forall>k<length pads.
              HitTest (pads ! k) (grid_point bb i j) \<and>
              (\<forall>m<k. \<not> HitTest (pads ! m) (grid_point bb i j)) \<longrightarrow>
              node_name c =
                (if current_draw (cfg ! k) \<noteq> ''0'' \<or> source (cfg ! k) then pad_name (cfg ! k)
                 else ''n'' @ str_nat i @ ''x'' @ str_nat j)) \<and>
           ((\<forall>p\<in>set pads. \<not> HitTest p (grid_point bb i j)) \<longrightarrow>
              node_name c = ''n'' @ str_nat i @ ''x'' @ str_nat j)"
    if "i < length nodes" and "j < length (nodes ! i)" for i j
  proof -
    from L(3) [OF that] obtain c where
      c: "test_node cfg (Some pads) tracks (grid_point bb i j) i j = Inr c"
      and e: "nodes ! i ! j = node_entry c" by blast
    from test_node_Inr(3) [OF c] obtain c' where
      cp: "check_pads cfg (grid_point bb i j) (''n'' @ str_nat i @ ''x'' @ str_nat j) 0 pads = Inr c'"
      and nm: "node_name c = node_name c'" by blast
    from check_pads_name [OF cp] c e nm show ?thesis by simp
  qed
  from n inside rows names show ?thesis by blast
qed

theorem uniform_grid_first_pad_names_witness:
  "length demo_analysis_pads \<le> length demo_cfg \<and>
   create_nodes demo_cfg (Some demo_analysis_pads) demo_tracks demo_box = Inr demo_nodes \<and>
   length (demo_nodes ! 2) = length (demo_nodes ! 0) \<and>
   grid_point demo_box 2 1 = (201000, 102000) \<and>
   HitTest (demo_analysis_pads ! 1) (201000, 102000) \<and>
   \<not> HitTest (demo_analysis_pads ! 0) (201000, 102000) \<and>
   current_draw (demo_cfg ! 1) = ''0.5'' \<and>
   demo_nodes ! 2 ! 1 = ''U1-Pad8'' \<and> demo_nodes ! 0 ! 1 = ''n0x1''"
proof -
  have h: "length demo_analysis_pads \<le> length demo_cfg"
    by (simp add: demo_analysis_pads_def demo_cfg_def)
  from uniform_grid_first_pad_names [OF h, of demo_tracks demo_box] obtain nodes where
    n: "create_nodes demo_cfg (Some demo_analysis_pads) demo_tracks demo_box = Inr nodes"
    and rows: "\<forall>i<length nodes. length (nodes ! i) = length (nodes ! 0)"
    by blast
  from n have eq: "nodes = demo_nodes" by (simp add: demo_nodes_eval)
  have "(2::nat) < length demo_nodes" by (simp add: demo_nodes_def)
  with rows eq have "length (demo_nodes ! 2) = length (demo_nodes ! 0)" by blast
  moreover have "grid_point demo_box 2 1 = (201000, 102000)"
    by (simp add: grid_point_def demo_box_def analysis_grid_spacing_def)
  moreover have "HitTest (demo_analysis_pads ! 1) (201000, 102000)"
    "\<not> HitTest (demo_analysis_pads ! 0) (201000, 102000)"
    "current_draw (demo_cfg ! 1) = ''0.5''"
    "demo_nodes ! 2 ! 1 = ''U1-Pad8''" "demo_nodes ! 0 ! 1 = ''n0x1''"
    by (simp_all add: demo_analysis_pads_def demo_pads_def demo_cfg_def demo_nodes_def)
  ultimately show ?thesis using h demo_nodes_eval by simp
qed

text \<open>
  A pad with a current draw that is not the first to hit does not name the node: where
  pads overlap, as on the second example board, the only grid point of the board
  lies on U1-1, which has the current draw \<^verbatim>\<open>"0.5"\<close>, but the loop stops at TP1-1, which
  it meets first and which has no current draw, so the node keeps its grid name.
\<close>

theorem node_on_two_pads_counterexample:
  "HitTest (GetPads overlap_board ! 1) (grid_point (GetBoardEdgesBoundingBox overlap_board) 0 0) \<and>
   pad_name (pad_config overlap_gui ! 1) = ''U1-Pad1'' \<and>
   current_draw (pad_config overlap_gui ! 1) = ''0.5'' \<and>
   create_nodes (pad_config overlap_gui) (analysis_pads overlap_gui) (TracksInNet overlap_board 1)
     (GetBoardEdgesBoundingBox overlap_board) = Inr [[''n0x0'']]"
  by (simp add: overlap_gui_eval)
     (simp add: overlap_board_def grid_point_def analysis_grid_spacing_def create_nodes_def
        create_line_def grid_range.simps test_node_def pad_node_name_def GetTextValue_def
        GetToggleValue_def node_entry_def str_nat.simps)

section \<open>The grid of voltages\<close>



section \<open>Selecting a net\<close>

text \<open>
  Claim C6. When the user selects entry \<open>k\<close> of the net list, the handler ends without
  an exception, the analysis net is the pair at index \<open>k\<close>, and the pad configuration
  list holds exactly one row for each pad of the board whose net name is the selected
  name, in the order of the board's pads, each with the name
  \<^verbatim>\<open><reference>-Pad<number>\<close>, the current draw \<^verbatim>\<open>"0"\<close> and the source toggle off. No
  earlier row is left, no source row is remembered and the start button is disabled.
\<close>

theorem select_net_fills_pad_config:
  assumes "0 \<le> k" and "k < int (length (netnames self))"
    and "length (nets self) = length (netnames self)"
  shows "snd (OnSelectNet self k) = None \<and>
     analysis_netname (fst (OnSelectNet self k)) = Some (netnames self ! nat k) \<and>
     analysis_net (fst (OnSelectNet self k)) = Some (nets self ! nat k) \<and>
     pad_config (fst (OnSelectNet self k)) =
       map (\<lambda>p. \<lparr>pad_name = GetReference p @ ''-Pad'' @ GetPadName p, current_draw = ''0'',
                  source = False\<rparr>)
         (filter (\<lambda>p. GetNetname p = netnames self ! nat k) (GetPads (board self))) \<and>
     source_row (fst (OnSelectNet self k)) = - 1 \<and>
     \<not> start_button_enabled (fst (OnSelectNet self k))"
proof -
  let ?nm = "netnames self ! nat k"
  have name: "py_index (netnames self) k = Inr ?nm"
    using assms(1,2) by (rule py_index_nat)
  have net: "py_index (nets self) k = Inr (nets self ! nat k)"
    using assms by (simp add: py_index_nat)
  have rows: "select_pads ?nm pads ([], [], []) =
      (filter (\<lambda>p. GetNetname p = ?nm) pads,
       map (\<lambda>p. GetReference p @ ''-Pad'' @ GetPadName p) (filter (\<lambda>p. GetNetname p = ?nm) pads),
       map (\<lambda>p. \<lparr>pad_name = GetReference p @ ''-Pad'' @ GetPadName p, current_draw = ''0'',
                  source = False\<rparr>) (filter (\<lambda>p. GetNetname p = ?nm) pads))" for pads
    by (simp add: select_pads_eq new_row_def)
  show ?thesis
  proof (cases "GetPads (board self) = []")
    case True
    then show ?thesis
      by (simp add: OnSelectNet_def name net Let_def)
  next
    case False
    then show ?thesis
      by (simp add: OnSelectNet_def name net Let_def rows)
  qed
qed

theorem select_net_fills_pad_config_witness:
  "(0::int) \<le> 0 \<and> (0::int) < int (length (netnames demo_gui)) \<and>
   length (nets demo_gui) = length (netnames demo_gui) \<and>
   pad_config demo_gui =
     [\<lparr>pad_name = ''J1-Pad1'', current_draw = ''0'', source = True\<rparr>,
      \<lparr>pad_name = ''U1-Pad8'', current_draw = ''0.5'', source = False\<rparr>] \<and>
   source_row demo_gui = 0 \<and> start_button_enabled demo_gui \<and>
   snd (OnSelectNet demo_gui 0) = None \<and>
   analysis_netname (fst (OnSelectNet demo_gui 0)) = Some ''GND'' \<and>
   pad_config (fst (OnSelectNet demo_gui 0)) =
     [\<lparr>pad_name = ''J1-Pad2'', current_draw = ''0'', source = False\<rparr>] \<and>
   source_row (fst (OnSelectNet demo_gui 0)) = - 1 \<and>
   \<not> start_button_enabled (fst (OnSelectNet demo_gui 0))"
proof -
  have h: "(0::int) \<le> 0" "(0::int) < int (length (netnames demo_gui))"
    "length (nets demo_gui) = length (netnames demo_gui)"
    by (simp_all add: demo_gui_eval)
  have before: "pad_config demo_gui =
     [\<lparr>pad_name = ''J1-Pad1'', current_draw = ''0'', source = True\<rparr>,
      \<lparr>pad_name = ''U1-Pad8'', current_draw = ''0.5'', source = False\<rparr>]"
    "source_row demo_gui = 0" "start_button_enabled demo_gui"
    by (simp_all add: demo_gui_eval demo_cfg_def)
  from select_net_fills_pad_config [OF h] show ?thesis
    using h before
    by (simp add: demo_gui_eval demo_cfg_def demo_board_def demo_pads_def)
qed

section \<open>Starting the analysis\<close>

text \<open>
  Claim C7. After any sequence of events, pressing the start button calls
  \<^verbatim>\<open>run_analysis\<close> exactly if a source row is remembered. In that case the remembered
  row is a row of the configuration list with its source toggle set, reading its name
  for the voltage source does not fail, and the netlist of every analysis that completes
  holds the line \<^verbatim>\<open>V1 <name of that row> 0 3.3\<close>.
\<close>

theorem analysis_runs_only_with_source:
  "(OnStartAnalysis ng_run (run_events evs (init b)) = None \<longleftrightarrow>
      source_row (run_events evs (init b)) = - 1) \<and>
   (source_row (run_events evs (init b)) \<noteq> - 1 \<longrightarrow>
      0 \<le> source_row (run_events evs (init b)) \<and>
      source_row (run_events evs (init b)) < int (length (pad_config (run_events evs (init b)))) \<and>
      source (pad_config (run_events evs (init b)) ! nat (source_row (run_events evs (init b)))) \<and>
      (\<forall>nodes. \<exists>rs cs.
         create_netlist (pad_config (run_events evs (init b))) (source_row (run_events evs (init b)))
           (analysis_padnames (run_events evs (init b))) nodes =
         Inr (''analysis'' # rs @
              [''V1 '' @ pad_name (pad_config (run_events evs (init b)) !
                                     nat (source_row (run_events evs (init b)))) @ '' 0 3.3''] @
              cs)) \<and>
      (\<forall>a. OnStartAnalysis ng_run (run_events evs (init b)) = Some (Inr a) \<longrightarrow>
         ''V1 '' @ pad_name (pad_config (run_events evs (init b)) !
                               nat (source_row (run_events evs (init b)))) @ '' 0 3.3''
           \<in> set (analysis_netlist a)))"
proof -
  let ?s = "run_events evs (init b)"
  let ?v = "''V1 '' @ pad_name (pad_config ?s ! nat (source_row ?s)) @ '' 0 3.3''"
  note inv = window_invariant_reachable [of b evs]
  then have si: "source_invariant ?s" by (simp add: window_invariant_def)
  have start: "OnStartAnalysis ng_run ?s = None \<longleftrightarrow> source_row ?s = - 1"
    by (simp add: OnStartAnalysis_def)
  have sel: "0 \<le> source_row ?s \<and> source_row ?s < int (length (pad_config ?s)) \<and>
      source (pad_config ?s ! nat (source_row ?s)) \<and>
      (\<forall>nodes. \<exists>rs cs.
         create_netlist (pad_config ?s) (source_row ?s) (analysis_padnames ?s) nodes =
         Inr (''analysis'' # rs @ [?v] @ cs)) \<and>
      (\<forall>a. OnStartAnalysis ng_run ?s = Some (Inr a) \<longrightarrow> ?v \<in> set (analysis_netlist a))"
    if sr: "source_row ?s \<noteq> - 1"
  proof -
    from si sr have range: "0 \<le> source_row ?s" "source_row ?s < int (length (pad_config ?s))"
      by (simp_all add: source_invariant_def)
    then have k: "nat (source_row ?s) < length (pad_config ?s)" by simp
    with si range have src: "source (pad_config ?s ! nat (source_row ?s))"
      by (simp add: source_invariant_def)
    from k have "pad_config ?s \<noteq> []" by auto
    with inv obtain names where names: "analysis_padnames ?s = Some names"
      and len: "length names = length (pad_config ?s)"
      by (auto simp: window_invariant_def)
    from len have le: "length names \<le> length (pad_config ?s)" by simp
    have nl: "\<exists>rs cs. create_netlist (pad_config ?s) (source_row ?s) (analysis_padnames ?s) nodes =
         Inr (''analysis'' # rs @ [?v] @ cs)" for nodes
      using create_netlist_run [OF range le, of nodes] unfolding names by blast
    have inlist: "?v \<in> set (analysis_netlist a)" if "OnStartAnalysis ng_run ?s = Some (Inr a)" for a
    proof -
      from that have "run_analysis ng_run ?s = Inr a"
        by (simp add: OnStartAnalysis_def split: if_splits)
      from run_analysis_netlist [OF this] nl [of "analysis_nodes a"] show ?thesis by auto
    qed
    from range src nl inlist show ?thesis by blast
  qed
  from start sel show ?thesis by blast
qed

theorem analysis_runs_only_with_source_witness:
  "OnStartAnalysis (\<lambda>netlist. Inr demo_data) (run_events [] (init demo_board)) = None \<and>
   source_row (run_events [] (init demo_board)) = - 1 \<and>
   source_row (run_events demo_events (init demo_board)) = 0 \<and>
   pad_name (pad_config (run_events demo_events (init demo_board)) ! 0) = ''J1-Pad1'' \<and>
   OnStartAnalysis (\<lambda>netlist. Inr demo_data) (run_events demo_events (init demo_board)) =
     Some (Inr \<lparr>analysis_nodes = demo_nodes, analysis_netlist = demo_netlist,
                node_voltages = [[3.3, 3.3, 3.3], [3.3, 3.3, 3.3], [3.3, 3.29975, 3.3]]\<rparr>) \<and>
   ''V1 J1-Pad1 0 3.3'' \<in> set demo_netlist"
proof -
  have none: "source_row (run_events [] (init demo_board)) = - 1"
    by (simp add: run_events_def init_eq)
  with analysis_runs_only_with_source [of "\<lambda>netlist. Inr demo_data" "[]" demo_board]
  have idle: "OnStartAnalysis (\<lambda>netlist. Inr demo_data) (run_events [] (init demo_board)) = None"
    by blast
  have row: "source_row (run_events demo_events (init demo_board)) = 0"
    "pad_name (pad_config (run_events demo_events (init demo_board)) ! 0) = ''J1-Pad1''"
    by (simp_all add: demo_gui_def [symmetric] demo_gui_eval demo_cfg_def)
  have run: "OnStartAnalysis (\<lambda>netlist. Inr demo_data) (run_events demo_events (init demo_board)) =
     Some (Inr \<lparr>analysis_nodes = demo_nodes, analysis_netlist = demo_netlist,
                node_voltages = [[3.3, 3.3, 3.3], [3.3, 3.3, 3.3], [3.3, 3.29975, 3.3]]\<rparr>)"
    unfolding demo_gui_def [symmetric]
    by (simp add: OnStartAnalysis_def demo_run_eval) (simp add: demo_gui_eval)
  from analysis_runs_only_with_source [of "\<lambda>netlist. Inr demo_data" demo_events demo_board]
    row run
  have "''V1 '' @ ''J1-Pad1'' @ '' 0 3.3'' \<in> set demo_netlist"
    by auto
  then show ?thesis using none idle row run by simp
qed

section \<open>Toggling the source\<close>

text \<open>
  Claim C8. The source selection is consistent in the new window, and it stays
  consistent when the user toggles the source cell of a row: toggling the remembered row
  clears the selection and disables the start button; toggling another row makes it the
  remembered row, enables the button and, if a row was remembered before, switches that
  row's toggle off. A value-changed event of another column changes nothing.
\<close>

theorem source_toggle_keeps_invariant:
  assumes "source_invariant self" and "r < length (pad_config self)"
  shows "source_invariant (init b) \<and>
     source_invariant (toggle_source r self) \<and>
     (source_row self = int r \<longrightarrow>
        source_row (toggle_source r self) = - 1 \<and>
        \<not> start_button_enabled (toggle_source r self) \<and>
        \<not> source (pad_config (toggle_source r self) ! r)) \<and>
     (source_row self \<noteq> int r \<longrightarrow>
        source_row (toggle_source r self) = int r \<and>
        start_button_enabled (toggle_source r self) \<and>
        source (pad_config (toggle_source r self) ! r) \<and>
        (source_row self \<noteq> - 1 \<longrightarrow>
           \<not> source (pad_config (toggle_source r self) ! nat (source_row self)))) \<and>
     (\<forall>column row. column \<noteq> 2 \<longrightarrow> OnSelectSource self column row = (self, None))"
proof -
  have i: "source_invariant (init b)"
    using window_invariant_init [of b] by (simp add: window_invariant_def)
  have inv: "source_invariant (toggle_source r self)"
    by (rule source_invariant_toggle [OF assms])
  have same: "source_row (toggle_source r self) = - 1 \<and>
        \<not> start_button_enabled (toggle_source r self) \<and>
        \<not> source (pad_config (toggle_source r self) ! r)" if "source_row self = int r"
    unfolding toggle_source_same [OF assms that] using assms(2) by simp
  have other: "source_row (toggle_source r self) = int r \<and>
        start_button_enabled (toggle_source r self) \<and>
        source (pad_config (toggle_source r self) ! r) \<and>
        (source_row self \<noteq> - 1 \<longrightarrow>
           \<not> source (pad_config (toggle_source r self) ! nat (source_row self)))"
    if ne: "source_row self \<noteq> int r"
  proof (cases "source_row self = - 1")
    case True
    show ?thesis unfolding toggle_source_first [OF assms True] using assms(2) True by simp
  next
    case False
    from assms(1) False have range: "0 \<le> source_row self"
      "source_row self < int (length (pad_config self))"
      by (simp_all add: source_invariant_def)
    from ne range have "nat (source_row self) \<noteq> r" by auto
    then show ?thesis
      unfolding toggle_source_other [OF assms ne False]
      using assms(2) range by (simp add: nth_list_update)
  qed
  have cols: "OnSelectSource self column row = (self, None)" if "column \<noteq> 2" for column row
    using that by (simp add: OnSelectSource_def)
  from i inv same other cols show ?thesis by blast
qed

theorem source_toggle_keeps_invariant_witness:
  "source_invariant demo_gui \<and> (1::nat) < length (pad_config demo_gui) \<and>
   source_row demo_gui = 0 \<and>
   source_invariant (toggle_source 1 demo_gui) \<and>
   source_row (toggle_source 1 demo_gui) = 1 \<and>
   start_button_enabled (toggle_source 1 demo_gui) \<and>
   source (pad_config (toggle_source 1 demo_gui) ! 1) \<and>
   \<not> source (pad_config (toggle_source 1 demo_gui) ! 0)"
proof -
  have si: "source_invariant demo_gui"
    using window_invariant_reachable [of demo_board demo_events]
    by (simp add: window_invariant_def demo_gui_def)
  have r: "(1::nat) < length (pad_config demo_gui)"
    and row: "source_row demo_gui = 0"
    by (simp_all add: demo_gui_eval demo_cfg_def)
  from source_toggle_keeps_invariant [OF si r] show ?thesis
    using si r row by simp
qed

section \<open>The net lists\<close>

text \<open>
  Claim C9. After any sequence of events, the lists of net names and nets have the same
  length and, paired index by index, are the entries of the board's net map whose name
  is not empty, in the map's order. Selecting an index of the list ends without an
  exception and makes the analysis net name and the analysis net the two entries at
  that index, a pair of the board's map with a name that is not empty; and every
  selection that ends without an exception takes both from one index.
\<close>

theorem net_lists_consistent:
  "length (netnames (run_events evs (init b))) = length (nets (run_events evs (init b))) \<and>
   zip (netnames (run_events evs (init b))) (nets (run_events evs (init b))) =
     filter (\<lambda>(name, n). name \<noteq> '''') (GetNetsByName b) \<and>
   (\<forall>k. 0 \<le> k \<and> k < int (length (netnames (run_events evs (init b)))) \<longrightarrow>
      snd (OnSelectNet (run_events evs (init b)) k) = None \<and>
      analysis_netname (fst (OnSelectNet (run_events evs (init b)) k)) =
        Some (netnames (run_events evs (init b)) ! nat k) \<and>
      analysis_net (fst (OnSelectNet (run_events evs (init b)) k)) =
        Some (nets (run_events evs (init b)) ! nat k) \<and>
      netnames (run_events evs (init b)) ! nat k \<noteq> '''' \<and>
      (netnames (run_events evs (init b)) ! nat k, nets (run_events evs (init b)) ! nat k)
        \<in> set (GetNetsByName b)) \<and>
   (\<forall>k. snd (OnSelectNet (run_events evs (init b)) k) = None \<longrightarrow>
      (\<exists>m<length (netnames (run_events evs (init b))).
         analysis_netname (fst (OnSelectNet (run_events evs (init b)) k)) =
           Some (netnames (run_events evs (init b)) ! m) \<and>
         analysis_net (fst (OnSelectNet (run_events evs (init b)) k)) =
           Some (nets (run_events evs (init b)) ! m) \<and>
         netnames (run_events evs (init b)) ! m \<noteq> '''' \<and>
         (netnames (run_events evs (init b)) ! m, nets (run_events evs (init b)) ! m)
           \<in> set (GetNetsByName b)))"
proof -
  let ?s = "run_events evs (init b)"
  from window_invariant_reachable [of b evs] have
    nn: "netnames ?s = netnames (init b)" and ns: "nets ?s = nets (init b)"
    by (simp_all add: window_invariant_def)
  have len: "length (netnames ?s) = length (nets ?s)"
    and z: "zip (netnames ?s) (nets ?s) = filter (\<lambda>(name, n). name \<noteq> '''') (GetNetsByName b)"
    using init_net_lists [of b] by (simp_all add: nn ns)
  have pair: "netnames ?s ! m \<noteq> '''' \<and> (netnames ?s ! m, nets ?s ! m) \<in> set (GetNetsByName b)"
    if "m < length (netnames ?s)" for m
    using net_pair_in_map [of m b] that by (simp add: nn ns)
  have valid: "snd (OnSelectNet ?s k) = None \<and>
      analysis_netname (fst (OnSelectNet ?s k)) = Some (netnames ?s ! nat k) \<and>
      analysis_net (fst (OnSelectNet ?s k)) = Some (nets ?s ! nat k) \<and>
      netnames ?s ! nat k \<noteq> '''' \<and>
      (netnames ?s ! nat k, nets ?s ! nat k) \<in> set (GetNetsByName b)"
    if "0 \<le> k \<and> k < int (length (netnames ?s))" for k
  proof -
    from that have k: "0 \<le> k" "k < int (length (netnames ?s))" by simp_all
    then have "nat k < length (netnames ?s)" by simp
    from pair [OF this] show ?thesis
      by (simp add: OnSelectNet_valid [OF k len [symmetric]])
  qed
  have sel: "\<exists>m<length (netnames ?s).
         analysis_netname (fst (OnSelectNet ?s k)) = Some (netnames ?s ! m) \<and>
         analysis_net (fst (OnSelectNet ?s k)) = Some (nets ?s ! m) \<and>
         netnames ?s ! m \<noteq> '''' \<and>
         (netnames ?s ! m, nets ?s ! m) \<in> set (GetNetsByName b)"
    if ok: "snd (OnSelectNet ?s k) = None" for k
  proof -
    from OnSelectNet_cases [OF len [symmetric], of k] ok obtain m where
      m: "m < length (netnames ?s)" and
      eq: "analysis_netname (fst (OnSelectNet ?s k)) = Some (netnames ?s ! m)"
          "analysis_net (fst (OnSelectNet ?s k)) = Some (nets ?s ! m)"
      by (elim disjE exE conjE) simp_all
    with pair [OF m] show ?thesis by blast
  qed
  from len z valid sel show ?thesis by blast
qed

theorem net_lists_consistent_witness:
  "zip (netnames (run_events demo_events (init demo_board)))
       (nets (run_events demo_events (init demo_board))) =
     [(''GND'', \<lparr>GetNet = 1\<rparr>), (''VCC'', \<lparr>GetNet = 2\<rparr>)] \<and>
   (0::int) \<le> 1 \<and> (1::int) < int (length (netnames (run_events demo_events (init demo_board)))) \<and>
   snd (OnSelectNet (run_events demo_events (init demo_board)) 1) = None \<and>
   analysis_netname (fst (OnSelectNet (run_events demo_events (init demo_board)) 1)) = Some ''VCC'' \<and>
   analysis_net (fst (OnSelectNet (run_events demo_events (init demo_board)) 1)) =
     Some \<lparr>GetNet = 2\<rparr> \<and>
   (''VCC'', \<lparr>GetNet = 2\<rparr>) \<in> set (GetNetsByName demo_board)"
proof -
  have g: "run_events demo_events (init demo_board) = demo_gui" by (simp add: demo_gui_def)
  have k: "(0::int) \<le> 1 \<and> (1::int) < int (length (netnames demo_gui))"
    by (simp add: demo_gui_eval)
  have at: "netnames demo_gui ! nat 1 = ''VCC''" "nets demo_gui ! nat 1 = \<lparr>GetNet = 2\<rparr>"
    by (simp_all add: demo_gui_eval)
  note T = net_lists_consistent [of demo_events demo_board, unfolded g]
  from T have z: "zip (netnames demo_gui) (nets demo_gui) =
       filter (\<lambda>(name, n). name \<noteq> '''') (GetNetsByName demo_board)" by blast
  from T k have sel: "snd (OnSelectNet demo_gui 1) = None \<and>
      analysis_netname (fst (OnSelectNet demo_gui 1)) = Some (netnames demo_gui ! nat 1) \<and>
      analysis_net (fst (OnSelectNet demo_gui 1)) = Some (nets demo_gui ! nat 1) \<and>
      (netnames demo_gui ! nat 1, nets demo_gui ! nat 1) \<in> set (GetNetsByName demo_board)"
    by blast
  have items: "filter (\<lambda>(name, n). name \<noteq> '''') (GetNetsByName demo_board) =
     [(''GND'', \<lparr>GetNet = 1\<rparr>), (''VCC'', \<lparr>GetNet = 2\<rparr>)]"
    by (simp add: demo_board_def)
  from z sel k show ?thesis unfolding g at items by blast
qed

section \<open>Points that are not on the net\<close>

text \<open>
  Claim C10. At every index of the grid of nodes whose grid point hits no pad of the
  analysis pads and no track of the net, the value computed for the grid of voltages is
  the source voltage 3.3, whatever the solver returned: the computation of this value
  does not raise, the value is not zero, and every grid of voltages that is created
  holds it at this index.
\<close>

theorem off_net_points_at_source_voltage:
  assumes "create_nodes cfg (Some pads) tracks bb = Inr nodes"
    and "i < length nodes" and "j < length (nodes ! i)"
    and "\<not> (\<exists>p\<in>set pads. HitTest p (grid_point bb i j))"
    and "\<not> (\<exists>t\<in>set tracks. TrackHitTest t (grid_point bb i j))"
  shows "cell_voltage data nodes i j = Inr 3.3 \<and>
         analysis_source_voltage = 3.3 \<and> analysis_source_voltage \<noteq> 0 \<and>
         (\<forall>vs. create_voltages data nodes = Inr vs \<longrightarrow>
            i < length vs \<and> j < length (vs ! i) \<and> vs ! i ! j = analysis_source_voltage)"
proof -
  note N = create_nodes_Inr [OF assms(1)]
  from assms(2) have "0 < length nodes" by (cases nodes) simp_all
  then have j0: "j < length (nodes ! 0)" using N(2) [OF assms(2)] N(2) [of 0] assms(3) by simp
  from N(3) [OF assms(2,3)] obtain c where
    c: "test_node cfg (Some pads) tracks (grid_point bb i j) i j = Inr c"
    and e: "nodes ! i ! j = node_entry c" by blast
  from test_node_Inr(1) [OF c] assms(4,5) have "\<not> node_on_net c" by simp
  with e have "nodes ! i ! j = ''''" by (simp add: node_entry_def)
  then have cell: "cell_voltage data nodes i j = Inr analysis_source_voltage"
    by (rule cell_voltage_off_net)
  have grid: "i < length vs \<and> j < length (vs ! i) \<and> vs ! i ! j = analysis_source_voltage"
    if vs: "create_voltages data nodes = Inr vs" for vs
  proof -
    note V = create_voltages_Inr [OF vs]
    from V(3) [OF assms(2) j0] cell have "vs ! i ! j = analysis_source_voltage" by simp
    then show ?thesis using V(1) V(2) [OF assms(2)] assms(2) j0 by simp
  qed
  from cell grid show ?thesis by (simp add: analysis_source_voltage_def)
qed

theorem off_net_points_at_source_voltage_witness:
  "create_nodes demo_cfg (Some demo_analysis_pads) demo_tracks demo_box = Inr demo_nodes \<and>
   (0::nat) < length demo_nodes \<and> (2::nat) < length (demo_nodes ! 0) \<and>
   grid_point demo_box 0 2 = (1000, 202000) \<and>
   \<not> (\<exists>p\<in>set demo_analysis_pads. HitTest p (1000, 202000)) \<and>
   \<not> (\<exists>t\<in>set demo_tracks. TrackHitTest t (1000, 202000)) \<and>
   cell_voltage demo_data demo_nodes 0 2 = Inr 3.3 \<and>
   create_voltages demo_data demo_nodes =
     Inr [[3.3, 3.3, 3.3], [3.3, 3.3, 3.3], [3.3, 3.29975, 3.3]] \<and>
   [[3.3, 3.3, 3.3], [3.3, 3.3, 3.3], [3.3, 3.29975, 3.3 :: real]] ! 0 ! 2 = analysis_source_voltage"
proof -
  have i: "(0::nat) < length demo_nodes" and j: "(2::nat) < length (demo_nodes ! 0)"
    by (simp_all add: demo_nodes_def)
  have pt: "grid_point demo_box 0 2 = (1000, 202000)"
    by (simp add: grid_point_def demo_box_def analysis_grid_spacing_def)
  have miss: "\<not> (\<exists>p\<in>set demo_analysis_pads. HitTest p (grid_point demo_box 0 2))"
    "\<not> (\<exists>t\<in>set demo_tracks. TrackHitTest t (grid_point demo_box 0 2))"
    by (simp_all add: pt demo_analysis_pads_def demo_pads_def demo_tracks_def)
  note T = off_net_points_at_source_voltage [where data = demo_data, OF demo_nodes_eval i j miss]
  from T have cell: "cell_voltage demo_data demo_nodes 0 2 = Inr 3.3" by blast
  from T demo_voltages_eval
  have "[[3.3, 3.3, 3.3], [3.3, 3.3, 3.3], [3.3, 3.29975, 3.3 :: real]] ! 0 ! 2 =
          analysis_source_voltage" by blast
  then show ?thesis
    using demo_nodes_eval demo_voltages_eval i j pt miss cell by (simp only: pt simp_thms)
qed

end
